theory Spec2Isabelle
  imports Main "HOL-Library.Sublist"
begin

section \<open>JavaScript values and containers\<close>

text \<open>
  State values, command results and event data are \<^verbatim>\<open>unknown\<close> in the source and arrive
  as parsed JSON. They are modelled as JSON trees; numbers are restricted to integers and
  an object lists its members in enumeration order. A string is the list of the bytes of
  its UTF-8 encoding.
\<close>

datatype jvalue =
    JNull
  | JBool bool
  | JNum int
  | JStr string
  | JArr "jvalue list"
  | JObj "(string \<times> jvalue) list"

definition digit_char :: "nat \<Rightarrow> char" where
  "digit_char d = char_of (48 + d)"

definition hex_char :: "nat \<Rightarrow> char" where
  "hex_char d = (if d < 10 then char_of (48 + d) else char_of (87 + d))"

text \<open>\<^verbatim>\<open>Number.prototype.toString\<close> on a non-negative integer.\<close>

fun nat_toString :: "nat \<Rightarrow> string" where
  "nat_toString n =
     (if n < 10 then [digit_char n] else nat_toString (n div 10) @ [digit_char (n mod 10)])"

declare nat_toString.simps [simp del]

definition int_toString :: "int \<Rightarrow> string" where
  "int_toString i = (if i < 0 then ''-'' @ nat_toString (nat (- i)) else nat_toString (nat i))"

text \<open>\<^verbatim>\<open>Array.prototype.join\<close>.\<close>

fun join :: "string \<Rightarrow> string list \<Rightarrow> string" where
  "join sep [] = []"
| "join sep [x] = x"
| "join sep (x # y # r) = x @ sep @ join sep (y # r)"

text \<open>\<^verbatim>\<open>String.prototype.split\<close> with a one-character separator: the result is never empty.\<close>

fun split :: "char \<Rightarrow> string \<Rightarrow> string list" where
  "split sep [] = [[]]"
| "split sep (c # s) =
     (if c = sep then [] # split sep s
      else (case split sep s of [] \<Rightarrow> [[c]] | w # ws \<Rightarrow> (c # w) # ws))"

text \<open>The string escapes of \<^verbatim>\<open>JSON.stringify\<close>.\<close>

definition json_escape :: "char \<Rightarrow> string" where
  "json_escape c =
     (if c = CHR 0x22 then [CHR 0x5C, CHR 0x22]
      else if c = CHR 0x5C then [CHR 0x5C, CHR 0x5C]
      else if c = CHR 0x08 then [CHR 0x5C, CHR ''b'']
      else if c = CHR 0x0C then [CHR 0x5C, CHR ''f'']
      else if c = CHR 0x0A then [CHR 0x5C, CHR ''n'']
      else if c = CHR 0x0D then [CHR 0x5C, CHR ''r'']
      else if c = CHR 0x09 then [CHR 0x5C, CHR ''t'']
      else if (of_char c :: nat) < 32
        then [CHR 0x5C, CHR ''u'', CHR ''0'', CHR ''0'',
              hex_char ((of_char c :: nat) div 16), hex_char ((of_char c :: nat) mod 16)]
      else [c])"

definition json_quote :: "string \<Rightarrow> string" where
  "json_quote s = [CHR 0x22] @ concat (map json_escape s) @ [CHR 0x22]"

fun JSON_stringify :: "jvalue \<Rightarrow> string" where
  "JSON_stringify JNull = ''null''"
| "JSON_stringify (JBool b) = (if b then ''true'' else ''false'')"
| "JSON_stringify (JNum n) = int_toString n"
| "JSON_stringify (JStr s) = json_quote s"
| "JSON_stringify (JArr xs) = ''['' @ join '','' (map JSON_stringify xs) @ '']''"
| "JSON_stringify (JObj kvs) =
     ''{'' @ join '','' (map (\<lambda>(k, v). json_quote k @ '':'' @ JSON_stringify v) kvs) @ ''}''"

text \<open>
  A JavaScript \<^verbatim>\<open>Map\<close> keeps its keys in insertion order: \<^verbatim>\<open>set\<close> on a present key
  replaces the value in place, on an absent key it appends.
\<close>

type_synonym ('k, 'v) jsmap = "('k \<times> 'v) list"

definition Map_get :: "('k, 'v) jsmap \<Rightarrow> 'k \<Rightarrow> 'v option" where
  "Map_get m k = map_of m k"

definition Map_has :: "('k, 'v) jsmap \<Rightarrow> 'k \<Rightarrow> bool" where
  "Map_has m k = (map_of m k \<noteq> None)"

fun Map_set :: "('k, 'v) jsmap \<Rightarrow> 'k \<Rightarrow> 'v \<Rightarrow> ('k, 'v) jsmap" where
  "Map_set [] k v = [(k, v)]"
| "Map_set ((k', v') # m) k v = (if k' = k then (k, v) # m else (k', v') # Map_set m k v)"

definition Map_delete :: "('k, 'v) jsmap \<Rightarrow> 'k \<Rightarrow> ('k, 'v) jsmap" where
  "Map_delete m k = filter (\<lambda>kv. fst kv \<noteq> k) m"

section \<open>State store (src/core/state/store.ts)\<close>

record StateEntry =
  "value" :: jvalue
  owner :: string
  version :: nat
  stale :: bool
  updatedAt :: nat
  path :: string

record StateDelta =
  delta_path :: string
  entry :: StateEntry
  previousVersion :: "nat option"

text \<open>
  The store's listener set is not part of the record: the only listener this repository
  installs is the router's \<^verbatim>\<open>handleStateDelta\<close>, which the router model calls on every
  delta a write returns.
\<close>

record StateStore =
  entries :: "(string, StateEntry) jsmap"
  globalVersion :: nat
  store_sequenceCounter :: nat
  store_source :: string

datatype error = StateOwnershipError string string string

definition new_StateStore :: "string \<Rightarrow> StateStore" where
  "new_StateStore src =
     \<lparr> entries = [], globalVersion = 0, store_sequenceCounter = 0, store_source = src \<rparr>"

definition StateStore_get :: "StateStore \<Rightarrow> string \<Rightarrow> StateEntry option" where
  "StateStore_get st p = Map_get (entries st) p"

text \<open>
  \<^verbatim>\<open>valueChanged\<close>: identical values are unchanged; otherwise the serialisations are
  compared. Serialisation cannot fail on JSON trees.
\<close>

definition valueChanged :: "jvalue \<Rightarrow> jvalue \<Rightarrow> bool" where
  "valueChanged oldValue newValue =
     (if oldValue = newValue then False
      else JSON_stringify oldValue \<noteq> JSON_stringify newValue)"

text \<open>
  \<^verbatim>\<open>StateStore.set\<close>; \<open>now\<close> is the reading of \<^verbatim>\<open>Date.now()\<close>. The ownership error is
  \<open>Inl\<close>; \<open>Inr (None, _)\<close> is the \<^verbatim>\<open>null\<close> return of a suppressed write.
\<close>

definition StateStore_set ::
  "StateStore \<Rightarrow> string \<Rightarrow> jvalue \<Rightarrow> string \<Rightarrow> nat \<Rightarrow> error + (StateDelta option \<times> StateStore)" where
  "StateStore_set st p v ownr now =
     (let existing = Map_get (entries st) p in
      if existing \<noteq> None \<and> owner (the existing) \<noteq> ownr
        then Inl (StateOwnershipError p (owner (the existing)) ownr)
      else if existing \<noteq> None \<and> \<not> valueChanged (value (the existing)) v
        then Inr (None, st)
      else
        let previousVersion = map_option version existing;
            newVersion = (case existing of None \<Rightarrow> 0 | Some e \<Rightarrow> version e) + 1;
            entry = \<lparr> value = v, owner = ownr, version = newVersion, stale = False,
                      updatedAt = now, path = p \<rparr>;
            delta = \<lparr> delta_path = p, entry = entry, previousVersion = previousVersion \<rparr>
        in Inr (Some delta,
                st\<lparr> entries := Map_set (entries st) p entry,
                    globalVersion := globalVersion st + 1 \<rparr>))"

text \<open>
  \<^verbatim>\<open>StateStore.markOwnerStale\<close>: the loop over the entries in map order; each flipped entry
  is replaced in place and yields a delta.
\<close>

fun markOwnerStale_loop ::
  "string \<Rightarrow> nat \<Rightarrow> (string \<times> StateEntry) list \<Rightarrow> (string \<times> StateEntry) list \<times> StateDelta list" where
  "markOwnerStale_loop ownr now [] = ([], [])"
| "markOwnerStale_loop ownr now ((p, e) # rest) =
     (let (rest', ds) = markOwnerStale_loop ownr now rest in
      if owner e = ownr \<and> \<not> stale e then
        let newEntry = e\<lparr> stale := True, version := version e + 1, updatedAt := now \<rparr>
        in ((p, newEntry) # rest',
            \<lparr> delta_path = p, entry = newEntry, previousVersion = Some (version e) \<rparr> # ds)
      else ((p, e) # rest', ds))"

definition StateStore_markOwnerStale ::
  "StateStore \<Rightarrow> string \<Rightarrow> nat \<Rightarrow> StateDelta list \<times> StateStore" where
  "StateStore_markOwnerStale st ownr now =
     (let (es, ds) = markOwnerStale_loop ownr now (entries st) in
      (ds, st\<lparr> entries := es, globalVersion := globalVersion st + length ds \<rparr>))"


section \<open>Pattern matching (src/core/state/store.ts)\<close>

text \<open>
  \<^verbatim>\<open>String.prototype.replace\<close> with a global pattern that matches one fixed text: every
  leftmost, non-overlapping occurrence of \<open>needle\<close> is replaced.
\<close>

function replaceAll :: "string \<Rightarrow> string \<Rightarrow> string \<Rightarrow> string" where
  "replaceAll needle rep s =
     (case s of
        [] \<Rightarrow> []
      | c # r \<Rightarrow>
          if needle \<noteq> [] \<and> prefix needle s
          then rep @ replaceAll needle rep (drop (length needle) s)
          else c # replaceAll needle rep r)"
  by pat_completeness auto
termination
  by (relation "measure (\<lambda>(needle, rep, s). length s)") auto

declare replaceAll.simps [simp del]

text \<open>The character class \<^verbatim>\<open>[.+?^${}()|[\]\\]\<close> of the first replacement.\<close>

definition regex_special :: "char \<Rightarrow> bool" where
  "regex_special c \<longleftrightarrow> c \<in> set ''.+?^${}()|[]'' \<or> c = CHR 0x5C"

text \<open>\<^verbatim>\<open>.replace(/[.+?^${}()|[\]\\]/g, '\\$&')\<close>: a backslash before every special character.\<close>

definition escape_special :: "string \<Rightarrow> string" where
  "escape_special s = concat (map (\<lambda>c. if regex_special c then [CHR 0x5C, c] else [c]) s)"

text \<open>
  \<^verbatim>\<open>patternToRegex\<close>: the four rewriting passes in source order, giving the source text
  handed to \<^verbatim>\<open>new RegExp\<close>.
\<close>

definition patternToRegex :: "string \<Rightarrow> string" where
  "patternToRegex pattern =
     (let escaped = replaceAll [CHR 0x5C, CHR ''.''] [CHR 0x5C, CHR ''.''] (escape_special pattern);
          escaped = replaceAll ''**'' ''{{DOUBLE_STAR}}'' escaped;
          escaped = replaceAll ''*'' ''[^.]+'' escaped;
          escaped = replaceAll ''{{DOUBLE_STAR}}'' ''.*'' escaped
      in ''^'' @ escaped @ ''$'')"

text \<open>
  The regular expressions that \<^verbatim>\<open>patternToRegex\<close> can emit: anchors, literal characters
  (plain or backslash-escaped), \<^verbatim>\<open>[^.]+\<close> and \<^verbatim>\<open>.*\<close>. \<open>parse_regex\<close> reads the source text
  left to right, as the RegExp constructor does; \<open>None\<close> is a text outside this fragment.
\<close>

datatype regex_atom = Begin | End | Lit char | NotDotPlus | DotStar

function parse_regex :: "string \<Rightarrow> regex_atom list option" where
  "parse_regex s =
     (case s of
        [] \<Rightarrow> Some []
      | c # r \<Rightarrow>
          if c = CHR 0x5C then
            (case r of
               [] \<Rightarrow> None
             | d # r' \<Rightarrow>
                 if regex_special d then map_option ((#) (Lit d)) (parse_regex r') else None)
          else if prefix ''[^.]+'' s then map_option ((#) NotDotPlus) (parse_regex (drop 5 s))
          else if prefix ''.*'' s then map_option ((#) DotStar) (parse_regex (drop 2 s))
          else if c = CHR ''^'' then map_option ((#) Begin) (parse_regex r)
          else if c = CHR ''$'' then map_option ((#) End) (parse_regex r)
          else if regex_special c \<or> c = CHR ''*'' then None
          else map_option ((#) (Lit c)) (parse_regex r))"
  by pat_completeness auto
termination
  by (relation "measure length") auto

declare parse_regex.simps [simp del]

text \<open>
  Without the \<^verbatim>\<open>s\<close> flag the dot does not match a line terminator: LF, CR, U+2028 or
  U+2029. \<open>line_terminator_at s\<close> tells whether the input \<open>s\<close> begins with one of them, the
  last two in their UTF-8 encodings \<^verbatim>\<open>E2 80 A8\<close> and \<^verbatim>\<open>E2 80 A9\<close>.
\<close>

definition line_terminator_at :: "string \<Rightarrow> bool" where
  "line_terminator_at s \<longleftrightarrow>
     prefix [CHR 0x0A] s \<or> prefix [CHR 0x0D] s \<or>
     prefix [CHR 0xE2, CHR 0x80, CHR 0xA8] s \<or> prefix [CHR 0xE2, CHR 0x80, CHR 0xA9] s"

text \<open>
  \<open>regex_match atoms s at_start\<close>: the atoms match a prefix of the remaining input \<open>s\<close>;
  \<open>at_start\<close> tells whether \<open>s\<close> is the whole input.
\<close>

fun regex_match :: "regex_atom list \<Rightarrow> string \<Rightarrow> bool \<Rightarrow> bool" where
  "regex_match [] s b = True"
| "regex_match (Begin # as) s b = (b \<and> regex_match as s b)"
| "regex_match (End # as) s b = (s = [] \<and> regex_match as s b)"
| "regex_match (Lit c # as) s b =
     (case s of [] \<Rightarrow> False | x # xs \<Rightarrow> x = c \<and> regex_match as xs False)"
| "regex_match (NotDotPlus # as) s b =
     (case s of [] \<Rightarrow> False
      | x # xs \<Rightarrow> x \<noteq> CHR ''.'' \<and> (regex_match as xs False \<or> regex_match (NotDotPlus # as) xs False))"
| "regex_match (DotStar # as) s b =
     (regex_match as s b \<or>
      (case s of [] \<Rightarrow> False
       | x # xs \<Rightarrow> \<not> line_terminator_at (x # xs) \<and> regex_match (DotStar # as) xs False))"

text \<open>\<^verbatim>\<open>RegExp.prototype.test\<close>: a match may start at any position of the input.\<close>

fun regex_search :: "regex_atom list \<Rightarrow> string \<Rightarrow> bool \<Rightarrow> bool" where
  "regex_search as [] b = regex_match as [] b"
| "regex_search as (x # xs) b = (regex_match as (x # xs) b \<or> regex_search as xs False)"

definition RegExp_test :: "string \<Rightarrow> string \<Rightarrow> bool option" where
  "RegExp_test src s = map_option (\<lambda>as. regex_search as s True) (parse_regex src)"

definition pathMatchesPattern :: "string \<Rightarrow> string \<Rightarrow> bool option" where
  "pathMatchesPattern p pattern = RegExp_test (patternToRegex pattern) p"

text \<open>
  The pattern language in the specification's words: \<^verbatim>\<open>**\<close> stands for \<^verbatim>\<open>.*\<close> (any run of
  characters that holds no line terminator), a remaining \<^verbatim>\<open>*\<close> for \<^verbatim>\<open>[^.]+\<close> (a non-empty run
  of characters other than the dot), every other character for itself, and the whole
  pattern is anchored.
\<close>

datatype glob = GLit char | GStar | GDoubleStar

fun spec_translate :: "string \<Rightarrow> glob list" where
  "spec_translate [] = []"
| "spec_translate [c] = (if c = CHR ''*'' then [GStar] else [GLit c])"
| "spec_translate (c # d # r) =
     (if c = CHR ''*'' \<and> d = CHR ''*'' then GDoubleStar # spec_translate r
      else if c = CHR ''*'' then GStar # spec_translate (d # r)
      else GLit c # spec_translate (d # r))"

text \<open>The regular-expression text the translation gives for one token.\<close>

fun glob_regex :: "glob \<Rightarrow> string" where
  "glob_regex (GLit c) = (if regex_special c then [CHR 0x5C, c] else [c])"
| "glob_regex GStar = ''[^.]+''"
| "glob_regex GDoubleStar = ''.*''"

fun glob_atom :: "glob \<Rightarrow> regex_atom" where
  "glob_atom (GLit c) = Lit c"
| "glob_atom GStar = NotDotPlus"
| "glob_atom GDoubleStar = DotStar"

fun spec_matches :: "glob list \<Rightarrow> string \<Rightarrow> bool" where
  "spec_matches [] s = (s = [])"
| "spec_matches (GLit c # gs) s =
     (case s of [] \<Rightarrow> False | x # xs \<Rightarrow> x = c \<and> spec_matches gs xs)"
| "spec_matches (GStar # gs) s =
     (case s of [] \<Rightarrow> False
      | x # xs \<Rightarrow> x \<noteq> CHR ''.'' \<and> (spec_matches gs xs \<or> spec_matches (GStar # gs) xs))"
| "spec_matches (GDoubleStar # gs) s =
     (spec_matches gs s \<or>
      (case s of [] \<Rightarrow> False
       | x # xs \<Rightarrow> \<not> line_terminator_at (x # xs) \<and> spec_matches (GDoubleStar # gs) xs))"

definition structurally_equal :: "jvalue \<Rightarrow> jvalue \<Rightarrow> bool" where
  "structurally_equal a b \<longleftrightarrow> JSON_stringify a = JSON_stringify b"

text \<open>
  A store that is reached by a write, a disconnect of the owner and nothing else:
  \<^verbatim>\<open>set('x.y', 1, 'app.a')\<close> at time 1, then \<^verbatim>\<open>markOwnerStale('app.a')\<close> at time 2.
\<close>

definition stale_store :: StateStore where
  "stale_store =
     (case StateStore_set (new_StateStore ''hub.core'') ''x.y'' (JNum 1) ''app.a'' 1 of
        Inr (_, st) \<Rightarrow> snd (StateStore_markOwnerStale st ''app.a'' 2)
      | Inl _ \<Rightarrow> new_StateStore ''hub.core'')"

section \<open>Bridge protocol messages (core/protocol/types.ts, core/protocol/factory.ts)\<close>

datatype AckStatus = Received | Completed | Failed | Timeout | Rejected

datatype ErrorCode =
    INVALID_MESSAGE | UNKNOWN_TARGET | TIMEOUT | RATE_LIMITED | UNAUTHORIZED | FORBIDDEN
  | ADAPTER_ERROR | STATE_CONFLICT | SUBSCRIPTION_FAILED | INTERNAL_ERROR

datatype SubscriptionFilter = FilterState | FilterEvents | FilterAll

text \<open>
  Command parameters are validated as \<^verbatim>\<open>z.record(z.unknown())\<close>: a JSON object whose members
  may hold any JSON value, whatever the handlers cast them to. A member that is absent
  reads as \<^verbatim>\<open>undefined\<close>, here \<open>None\<close>.
\<close>

type_synonym CommandParams = "(string, jvalue) jsmap"

definition member :: "string \<Rightarrow> CommandParams \<Rightarrow> jvalue option" where
  "member k p = Map_get p k"

datatype payload =
    CommandPayload string "CommandParams option"
  | EventPayload string "jvalue option"
  | StatePayload jvalue "bool option" "string option" "nat option"
  | AckPayload AckStatus string "jvalue option" "(ErrorCode \<times> string) option"
  | ErrorPayload ErrorCode string "string option"
  | SubscribePayload "string list" "SubscriptionFilter option" "bool option"
  | UnsubscribePayload "string list"

text \<open>The envelope; the \<^verbatim>\<open>type\<close> tag is the constructor of the payload.\<close>

record BridgeMessage =
  msg_id :: string
  source :: string
  target :: "string option"
  msg_path :: string
  payload :: payload
  timestamp :: nat
  correlationId :: "string option"
  "sequence" :: nat
  ttl :: "nat option"
  idempotencyKey :: "string option"

definition isCommandMessage :: "BridgeMessage \<Rightarrow> bool" where
  "isCommandMessage m = (case payload m of CommandPayload _ _ \<Rightarrow> True | _ \<Rightarrow> False)"

text \<open>
  \<^verbatim>\<open>generateUuidV7\<close> draws a random identifier; the model takes the identifiers from a
  supply indexed by a counter.
\<close>

definition generateUuidV7 :: "nat \<Rightarrow> string" where
  "generateUuidV7 n = ''uuid-'' @ nat_toString n"

definition createAck ::
  "string \<Rightarrow> nat \<Rightarrow> string \<Rightarrow> string \<Rightarrow> string \<Rightarrow> string \<Rightarrow> AckStatus \<Rightarrow> jvalue option \<Rightarrow>
   (ErrorCode \<times> string) option \<Rightarrow> string option \<Rightarrow> nat \<Rightarrow> BridgeMessage" where
  "createAck uid now src tgt pth cmdId st res err corr sq =
     \<lparr> msg_id = uid, source = src, target = Some tgt, msg_path = pth,
       payload = AckPayload st cmdId res err, timestamp = now, correlationId = corr,
       sequence = sq, ttl = None, idempotencyKey = None \<rparr>"

definition createError ::
  "string \<Rightarrow> nat \<Rightarrow> string \<Rightarrow> string option \<Rightarrow> string \<Rightarrow> ErrorCode \<Rightarrow> string \<Rightarrow> string option \<Rightarrow>
   string option \<Rightarrow> nat \<Rightarrow> BridgeMessage" where
  "createError uid now src tgt pth code text related corr sq =
     \<lparr> msg_id = uid, source = src, target = tgt, msg_path = pth,
       payload = ErrorPayload code text related, timestamp = now, correlationId = corr,
       sequence = sq, ttl = None, idempotencyKey = None \<rparr>"

definition createState ::
  "string \<Rightarrow> nat \<Rightarrow> string \<Rightarrow> string \<Rightarrow> jvalue \<Rightarrow> bool option \<Rightarrow> string option \<Rightarrow> nat option \<Rightarrow>
   nat \<Rightarrow> BridgeMessage" where
  "createState uid now src pth v stl ownr ver sq =
     \<lparr> msg_id = uid, source = src, target = None, msg_path = pth,
       payload = StatePayload v stl (Some (case ownr of Some x \<Rightarrow> x | None \<Rightarrow> src)) ver,
       timestamp = now, correlationId = None, sequence = sq, ttl = None,
       idempotencyKey = None \<rparr>"

section \<open>Companion adapter (adapters/companion/adapter.ts)\<close>

record CompanionCapabilities =
  supportsVariables :: bool
  supportsKeyImages :: bool
  supportsRotation :: bool
  supportsVariableWrite :: bool

definition DEFAULT_CAPABILITIES :: CompanionCapabilities where
  "DEFAULT_CAPABILITIES =
     \<lparr> supportsVariables = True, supportsKeyImages = True, supportsRotation = False,
       supportsVariableWrite = True \<rparr>"

text \<open>
  The adapter's fields that command handling reads or writes. \<open>ws_open\<close> stands for
  \<^verbatim>\<open>this.ws && this.ws.readyState === WebSocket.OPEN\<close>, \<open>ws_send_throws\<close> for a socket whose
  \<^verbatim>\<open>send\<close> raises, \<open>router_attached\<close> for \<^verbatim>\<open>this.router !== null\<close>, and \<open>sent\<close> lists the frames
  written to the socket, oldest first.

  \<open>coerced_key_text\<close> is not a field of the class: it stands for the JavaScript engine. The
  text of \<^verbatim>\<open>((page - 1) * 8 + bank).toString()\<close> is computed here when both operands are
  integers; for other operands it depends on the engine's string-to-number conversion and
  double arithmetic, which are not modelled, and is taken from this function.
\<close>

record CompanionAdapter =
  deviceId :: string
  router_attached :: bool
  ws_open :: bool
  ws_send_throws :: bool
  capabilities :: CompanionCapabilities
  variablesCache :: "(string, string) jsmap"
  keyStatesCache :: "(string, jvalue) jsmap"
  adapter_sequenceCounter :: nat
  messagesSent :: nat
  commandsSent :: nat
  commandsFailed :: nat
  sent :: "string list"
  coerced_key_text :: "jvalue \<Rightarrow> jvalue \<Rightarrow> string"

definition adapter_namespace :: string where
  "adapter_namespace = ''companion.satellite''"

text \<open>\<^verbatim>\<open>encodeURIComponent\<close> on the UTF-8 bytes of a string.\<close>

definition uri_unreserved :: "char \<Rightarrow> bool" where
  "uri_unreserved c \<longleftrightarrow>
     c \<in> set ''ABCDEFGHIJKLMNOPQRSTUVWXYZabcdefghijklmnopqrstuvwxyz0123456789-_.!~*()''
     \<or> c = CHR 0x27"

definition upper_hex_char :: "nat \<Rightarrow> char" where
  "upper_hex_char d = (if d < 10 then char_of (48 + d) else char_of (55 + d))"

definition encodeURIComponent :: "string \<Rightarrow> string" where
  "encodeURIComponent s =
     concat (map (\<lambda>c. if uri_unreserved c then [c]
                       else [CHR ''%'', upper_hex_char ((of_char c :: nat) div 16),
                             upper_hex_char ((of_char c :: nat) mod 16)]) s)"

definition sendSatelliteCommand ::
  "CompanionAdapter \<Rightarrow> string \<Rightarrow> string list \<Rightarrow> bool \<times> CompanionAdapter" where
  "sendSatelliteCommand a command args =
     (if \<not> ws_open a then (False, a)
      else
        let message = join '' '' (command # args) in
        if ws_send_throws a then (False, a)
        else (True, a\<lparr> sent := sent a @ [message], messagesSent := messagesSent a + 1 \<rparr>))"

text \<open>
  The response helpers hand their ack to \<^verbatim>\<open>router.route\<close>; the model returns the acks so
  handed over, in order. \<open>uid\<close> is the identifier drawn for the ack.
\<close>

definition sendCompletedAck ::
  "CompanionAdapter \<Rightarrow> BridgeMessage \<Rightarrow> jvalue option \<Rightarrow> string \<Rightarrow> nat \<Rightarrow>
   CompanionAdapter \<times> BridgeMessage list" where
  "sendCompletedAck a command res uid now =
     (if \<not> router_attached a then (a, [])
      else (a\<lparr> adapter_sequenceCounter := adapter_sequenceCounter a + 1 \<rparr>,
            [createAck uid now adapter_namespace (source command) (msg_path command)
               (msg_id command) Completed res None (correlationId command)
               (adapter_sequenceCounter a)]))"

definition sendErrorResponse ::
  "CompanionAdapter \<Rightarrow> BridgeMessage \<Rightarrow> ErrorCode \<Rightarrow> string \<Rightarrow> string \<Rightarrow> nat \<Rightarrow>
   CompanionAdapter \<times> BridgeMessage list" where
  "sendErrorResponse a command code text uid now =
     (if \<not> router_attached a then (a, [])
      else (a\<lparr> commandsFailed := commandsFailed a + 1,
               adapter_sequenceCounter := adapter_sequenceCounter a + 1 \<rparr>,
            [createAck uid now adapter_namespace (source command) (msg_path command)
               (msg_id command) Failed None (Some (code, text)) (correlationId command)
               (adapter_sequenceCounter a)]))"

text \<open>Optional chaining \<^verbatim>\<open>params?.member\<close>.\<close>

definition optional_chain :: "'p option \<Rightarrow> ('p \<Rightarrow> 'a option) \<Rightarrow> 'a option" where
  "optional_chain params read = (case params of None \<Rightarrow> None | Some p \<Rightarrow> read p)"

text \<open>JavaScript truthiness of a JSON value, and falsiness of a read that may be undefined.\<close>

fun truthy :: "jvalue \<Rightarrow> bool" where
  "truthy JNull = False"
| "truthy (JBool b) = b"
| "truthy (JNum n) = (n \<noteq> 0)"
| "truthy (JStr s) = (s \<noteq> [])"
| "truthy (JArr xs) = True"
| "truthy (JObj kvs) = True"

definition falsy :: "jvalue option \<Rightarrow> bool" where
  "falsy x = (case x of None \<Rightarrow> True | Some v \<Rightarrow> \<not> truthy v)"

definition falsy_string :: "string option \<Rightarrow> bool" where
  "falsy_string x \<longleftrightarrow> x = None \<or> x = Some []"

text \<open>
  \<^verbatim>\<open>ToString\<close> of a JSON value, as a template literal and \<^verbatim>\<open>encodeURIComponent\<close> apply it.
  An array joins the texts of its elements with commas, \<^verbatim>\<open>null\<close> elements giving the empty
  text. A parsed JSON object has no callable member: with a member named \<^verbatim>\<open>toString\<close> of
  its own it cannot be converted and a TypeError is raised (\<open>None\<close>); otherwise it inherits
  \<^verbatim>\<open>Object.prototype.toString\<close>.
\<close>

fun js_string :: "jvalue \<Rightarrow> string option" where
  "js_string JNull = Some ''null''"
| "js_string (JBool b) = Some (if b then ''true'' else ''false'')"
| "js_string (JNum n) = Some (int_toString n)"
| "js_string (JStr s) = Some s"
| "js_string (JArr xs) =
     map_option (join '','') (those (map (\<lambda>x. if x = JNull then Some [] else js_string x) xs))"
| "js_string (JObj kvs) = (if Map_has kvs ''toString'' then None else Some ''[object Object]'')"

text \<open>The messages of the TypeErrors, in the words of V8.\<close>

definition not_primitive_error :: string where
  "not_primitive_error = ''Cannot convert object to primitive value''"

definition null_toString_error :: string where
  "null_toString_error =
     ''Cannot read properties of null (reading '' @ [CHR 0x27] @ ''toString'' @ [CHR 0x27] @ '')''"

definition not_a_function_error :: "string \<Rightarrow> string" where
  "not_a_function_error callee = callee @ ''.toString is not a function''"

text \<open>\<^verbatim>\<open>ToString(v)\<close> with its exception: \<open>Inl\<close> is the message of the error raised.\<close>

definition ToString :: "jvalue \<Rightarrow> string + string" where
  "ToString v = (case js_string v of None \<Rightarrow> Inl not_primitive_error | Some s \<Rightarrow> Inr s)"

text \<open>
  The method call \<^verbatim>\<open>v.toString()\<close>, where \<open>callee\<close> is the source text of \<^verbatim>\<open>v\<close>: \<^verbatim>\<open>null\<close> has no
  members, and an object's own member \<^verbatim>\<open>toString\<close> is not a function.
\<close>

definition toString_method :: "string \<Rightarrow> jvalue \<Rightarrow> string + string" where
  "toString_method callee v =
     (case v of
        JNull \<Rightarrow> Inl null_toString_error
      | JObj kvs \<Rightarrow>
          if Map_has kvs ''toString'' then Inl (not_a_function_error callee)
          else Inr ''[object Object]''
      | _ \<Rightarrow> ToString v)"

text \<open>
  The text of \<^verbatim>\<open>((params.page - 1) * 8 + params.bank).toString()\<close>. The subtraction converts
  \<^verbatim>\<open>page\<close> to a number and the addition converts \<^verbatim>\<open>bank\<close> to a primitive; either conversion
  raises for a value that \<^verbatim>\<open>ToString\<close> cannot convert.
\<close>

definition page_bank_text :: "CompanionAdapter \<Rightarrow> jvalue \<Rightarrow> jvalue \<Rightarrow> string + string" where
  "page_bank_text a pg bk =
     (case (pg, bk) of
        (JNum x, JNum y) \<Rightarrow> Inr (int_toString ((x - 1) * 8 + y))
      | _ \<Rightarrow>
          if js_string pg = None \<or> js_string bk = None then Inl not_primitive_error
          else Inr (coerced_key_text a pg bk))"

text \<open>
  The key index of a press or release, as the text put on the wire: \<^verbatim>\<open>params.keyIndex\<close> when
  defined, else computed from \<^verbatim>\<open>page\<close> and \<^verbatim>\<open>bank\<close> when both are defined, else missing
  (\<open>None\<close>).
\<close>

definition press_key_text :: "CompanionAdapter \<Rightarrow> CommandParams option \<Rightarrow> (string + string) option" where
  "press_key_text a params =
     (case optional_chain params (member ''keyIndex'') of
        Some k \<Rightarrow> Some (toString_method ''keyIndex'' k)
      | None \<Rightarrow>
          if optional_chain params (member ''page'') \<noteq> None
             \<and> optional_chain params (member ''bank'') \<noteq> None
          then Some (page_bank_text a (the (optional_chain params (member ''page'')))
                       (the (optional_chain params (member ''bank''))))
          else None)"

text \<open>
  The command handlers. \<open>Inl\<close> is the message of an exception raised by the handler, which
  rejects the promise it returned; \<open>Inr\<close> is the adapter after the call and the acks handed
  to the router.
\<close>

definition handlePressCommand ::
  "CompanionAdapter \<Rightarrow> BridgeMessage \<Rightarrow> CommandParams option \<Rightarrow> string \<Rightarrow> nat \<Rightarrow>
   string + CompanionAdapter \<times> BridgeMessage list" where
  "handlePressCommand a command params uid now =
     (case press_key_text a params of
        None \<Rightarrow>
          Inr (sendErrorResponse a command INVALID_MESSAGE
                 ''Missing keyIndex or page/bank parameters'' uid now)
      | Some (Inl e) \<Rightarrow> Inl e
      | Some (Inr k) \<Rightarrow>
          let (ok, a1) = sendSatelliteCommand a ''KEY-PRESS'' [deviceId a, k, ''PRESSED''];
              a2 = a1\<lparr> commandsSent := commandsSent a1 + 1 \<rparr>
          in Inr (sendCompletedAck a2 command None uid now))"

definition handleReleaseCommand ::
  "CompanionAdapter \<Rightarrow> BridgeMessage \<Rightarrow> CommandParams option \<Rightarrow> string \<Rightarrow> nat \<Rightarrow>
   string + CompanionAdapter \<times> BridgeMessage list" where
  "handleReleaseCommand a command params uid now =
     (case press_key_text a params of
        None \<Rightarrow>
          Inr (sendErrorResponse a command INVALID_MESSAGE
                 ''Missing keyIndex or page/bank parameters'' uid now)
      | Some (Inl e) \<Rightarrow> Inl e
      | Some (Inr k) \<Rightarrow>
          let (ok, a1) = sendSatelliteCommand a ''KEY-PRESS'' [deviceId a, k, ''RELEASED''];
              a2 = a1\<lparr> commandsSent := commandsSent a1 + 1 \<rparr>
          in Inr (sendCompletedAck a2 command None uid now))"

definition handleRotateCommand ::
  "CompanionAdapter \<Rightarrow> BridgeMessage \<Rightarrow> CommandParams option \<Rightarrow> string \<Rightarrow> nat \<Rightarrow>
   string + CompanionAdapter \<times> BridgeMessage list" where
  "handleRotateCommand a command params uid now =
     (if \<not> supportsRotation (capabilities a) then
        Inr (sendErrorResponse a command ADAPTER_ERROR
               ''Rotation not supported by this Companion instance'' uid now)
      else if falsy (optional_chain params (member ''keyIndex''))
            \<or> falsy (optional_chain params (member ''direction'')) then
        Inr (sendErrorResponse a command INVALID_MESSAGE
               ''Missing keyIndex or direction parameters'' uid now)
      else
        (case toString_method ''params.keyIndex'' (the (member ''keyIndex'' (the params))) of
           Inl e \<Rightarrow> Inl e
         | Inr k \<Rightarrow>
             let (ok, a1) = sendSatelliteCommand a ''KEY-ROTATE''
                              [deviceId a, k,
                               if member ''direction'' (the params) = Some (JStr ''left'')
                               then ''-1'' else ''1''];
                 a2 = a1\<lparr> commandsSent := commandsSent a1 + 1 \<rparr>
             in Inr (sendCompletedAck a2 command None uid now)))"

definition handleSetVariableCommand ::
  "CompanionAdapter \<Rightarrow> BridgeMessage \<Rightarrow> CommandParams option \<Rightarrow> string \<Rightarrow> nat \<Rightarrow>
   string + CompanionAdapter \<times> BridgeMessage list" where
  "handleSetVariableCommand a command params uid now =
     (if \<not> supportsVariableWrite (capabilities a) then
        Inr (sendErrorResponse a command ADAPTER_ERROR ''Variable write not supported'' uid now)
      else if falsy (optional_chain params (member ''name''))
            \<or> optional_chain params (member ''value'') = None then
        Inr (sendErrorResponse a command INVALID_MESSAGE ''Missing name or value parameters'' uid now)
      else
        (case ToString (the (member ''name'' (the params))) of
           Inl e \<Rightarrow> Inl e
         | Inr n \<Rightarrow>
             (case ToString (the (member ''value'' (the params))) of
                Inl e \<Rightarrow> Inl e
              | Inr v \<Rightarrow>
                  let (ok, a1) = sendSatelliteCommand a ''VARIABLE-VALUE''
                                   [n @ ''='' @ encodeURIComponent v];
                      a2 = a1\<lparr> commandsSent := commandsSent a1 + 1 \<rparr>
                  in Inr (sendCompletedAck a2 command None uid now))))"

text \<open>
  \<^verbatim>\<open>variablesCache\<close> is keyed by strings, so a name that is not a string finds nothing.
\<close>

definition handleGetVariableCommand ::
  "CompanionAdapter \<Rightarrow> BridgeMessage \<Rightarrow> CommandParams option \<Rightarrow> string \<Rightarrow> nat \<Rightarrow>
   string + CompanionAdapter \<times> BridgeMessage list" where
  "handleGetVariableCommand a command params uid now =
     (if falsy (optional_chain params (member ''name'')) then
        Inr (sendErrorResponse a command INVALID_MESSAGE ''Missing name parameter'' uid now)
      else
        let n = the (member ''name'' (the params));
            v = (case n of JStr s \<Rightarrow> Map_get (variablesCache a) s | _ \<Rightarrow> None)
        in Inr (sendCompletedAck a command
                  (Some (JObj [(''name'', n),
                               (''value'', (case v of Some x \<Rightarrow> JStr x | None \<Rightarrow> JNull))]))
                  uid now))"

definition handleClearKeysCommand ::
  "CompanionAdapter \<Rightarrow> BridgeMessage \<Rightarrow> string \<Rightarrow> nat \<Rightarrow>
   string + CompanionAdapter \<times> BridgeMessage list" where
  "handleClearKeysCommand a command uid now =
     (let (ok, a1) = sendSatelliteCommand a ''KEYS-CLEAR'' [deviceId a];
          a2 = a1\<lparr> keyStatesCache := [], commandsSent := commandsSent a1 + 1 \<rparr>
      in Inr (sendCompletedAck a2 command None uid now))"

definition handleBridgeMessage ::
  "CompanionAdapter \<Rightarrow> BridgeMessage \<Rightarrow> string \<Rightarrow> nat \<Rightarrow>
   string + CompanionAdapter \<times> BridgeMessage list" where
  "handleBridgeMessage a message uid now =
     (case payload message of
        CommandPayload action params \<Rightarrow>
          if action = ''press'' then handlePressCommand a message params uid now
          else if action = ''release'' then handleReleaseCommand a message params uid now
          else if action = ''rotate'' then handleRotateCommand a message params uid now
          else if action = ''setVariable'' then handleSetVariableCommand a message params uid now
          else if action = ''getVariable'' then handleGetVariableCommand a message params uid now
          else if action = ''clearKeys'' then handleClearKeysCommand a message uid now
          else Inr (sendErrorResponse a message ADAPTER_ERROR (''Unknown action: '' @ action) uid now)
      | _ \<Rightarrow> Inr (a, []))"

text \<open>
  The text of one token after the first and after the second wildcard pass of
  \<^verbatim>\<open>patternToRegex\<close>, used to follow the passes one by one.
\<close>

fun passA :: "glob \<Rightarrow> string" where
  "passA (GLit c) = (if regex_special c then [CHR 0x5C, c] else [c])"
| "passA GStar = ''*''"
| "passA GDoubleStar = ''{{DOUBLE_STAR}}''"

fun passB :: "glob \<Rightarrow> string" where
  "passB (GLit c) = (if regex_special c then [CHR 0x5C, c] else [c])"
| "passB GStar = ''[^.]+''"
| "passB GDoubleStar = ''{{DOUBLE_STAR}}''"

text \<open>Readers for the fields of an ack payload.\<close>

definition ack_status :: "BridgeMessage \<Rightarrow> AckStatus option" where
  "ack_status m = (case payload m of AckPayload st _ _ _ \<Rightarrow> Some st | _ \<Rightarrow> None)"

definition ack_error_code :: "BridgeMessage \<Rightarrow> ErrorCode option" where
  "ack_error_code m =
     (case payload m of AckPayload _ _ _ err \<Rightarrow> map_option fst err | _ \<Rightarrow> None)"

text \<open>
  The parameter table of the specification: the actions the adapter knows, the capability
  an action requires, whether a required parameter of the action is missing (for a press
  or release: absent; for the other actions the handlers test truthiness, so a \<^verbatim>\<open>null\<close>,
  \<^verbatim>\<open>false\<close>, zero or empty member counts as missing, except the \<^verbatim>\<open>value\<close> of setVariable), and
  the Satellite command word an action puts on the wire (getVariable puts none).
\<close>

definition known_action :: "string \<Rightarrow> bool" where
  "known_action action \<longleftrightarrow>
     action \<in> set [''press'', ''release'', ''rotate'', ''setVariable'', ''getVariable'', ''clearKeys'']"

definition capability_missing :: "CompanionAdapter \<Rightarrow> string \<Rightarrow> bool" where
  "capability_missing a action \<longleftrightarrow>
     (action = ''rotate'' \<and> \<not> supportsRotation (capabilities a)) \<or>
     (action = ''setVariable'' \<and> \<not> supportsVariableWrite (capabilities a))"

definition params_missing :: "string \<Rightarrow> CommandParams option \<Rightarrow> bool" where
  "params_missing action params \<longleftrightarrow>
     (if action = ''press'' \<or> action = ''release''
        then optional_chain params (member ''keyIndex'') = None \<and>
             (optional_chain params (member ''page'') = None
              \<or> optional_chain params (member ''bank'') = None)
      else if action = ''rotate''
        then falsy (optional_chain params (member ''keyIndex''))
             \<or> falsy (optional_chain params (member ''direction''))
      else if action = ''setVariable''
        then falsy (optional_chain params (member ''name''))
             \<or> optional_chain params (member ''value'') = None
      else if action = ''getVariable'' then falsy (optional_chain params (member ''name''))
      else False)"

definition wire_command :: "string \<Rightarrow> string option" where
  "wire_command action =
     (if action = ''press'' \<or> action = ''release'' then Some ''KEY-PRESS''
      else if action = ''rotate'' then Some ''KEY-ROTATE''
      else if action = ''setVariable'' then Some ''VARIABLE-VALUE''
      else if action = ''clearKeys'' then Some ''KEYS-CLEAR''
      else None)"

text \<open>
  An adapter attached to the router with the default capabilities and device
  \<^verbatim>\<open>dev\<close>, its socket open or not, and a command sent by \<^verbatim>\<open>app.x\<close>. The examples pass integer
  key indices only, so nothing is asked of \<open>coerced_key_text\<close>.
\<close>

definition unused_coercion :: "jvalue \<Rightarrow> jvalue \<Rightarrow> string" where
  "unused_coercion pg bk = ''NaN''"

definition example_adapter :: "bool \<Rightarrow> CompanionAdapter" where
  "example_adapter is_open =
     \<lparr> deviceId = ''dev'', router_attached = True, ws_open = is_open, ws_send_throws = False,
       capabilities = DEFAULT_CAPABILITIES, variablesCache = [], keyStatesCache = [],
       adapter_sequenceCounter = 0, messagesSent = 0, commandsSent = 0, commandsFailed = 0,
       sent = [], coerced_key_text = unused_coercion \<rparr>"

definition rotation_adapter :: CompanionAdapter where
  "rotation_adapter =
     (example_adapter True)\<lparr> capabilities := DEFAULT_CAPABILITIES\<lparr> supportsRotation := True \<rparr> \<rparr>"

definition example_command :: "string \<Rightarrow> string \<Rightarrow> CommandParams option \<Rightarrow> BridgeMessage" where
  "example_command uid action params =
     \<lparr> msg_id = uid, source = ''app.x'', target = Some ''companion.satellite'',
       msg_path = ''companion.page.1.bank.0'', payload = CommandPayload action params,
       timestamp = 1000, correlationId = None, sequence = 1, ttl = None,
       idempotencyKey = Some ''K1'' \<rparr>"

section \<open>Subscription manager (core/router/subscription.ts)\<close>

record Subscription =
  sub_id :: string
  clientId :: string
  patterns :: "string list"
  compiledPatterns :: "string list"
  sub_filter :: SubscriptionFilter
  snapshot :: bool
  snapshotSent :: bool
  createdAt :: nat

text \<open>
  \<open>subscriptionsByClient\<close> maps a client to a \<^verbatim>\<open>Set\<close> of subscription ids, kept as a
  duplicate-free list in insertion order.
\<close>

record SubscriptionManager =
  subscriptionsById :: "(string, Subscription) jsmap"
  subscriptionsByClient :: "(string, string list) jsmap"
  idCounter :: nat

definition Set_add :: "'a list \<Rightarrow> 'a \<Rightarrow> 'a list" where
  "Set_add xs x = (if x \<in> set xs then xs else xs @ [x])"

definition new_SubscriptionManager :: SubscriptionManager where
  "new_SubscriptionManager =
     \<lparr> subscriptionsById = [], subscriptionsByClient = [], idCounter = 0 \<rparr>"

text \<open>
  \<^verbatim>\<open>subscribe(clientId, patterns, filter = 'all', snapshot = true)\<close>: an argument that is
  \<^verbatim>\<open>undefined\<close> (\<open>None\<close>) takes the default.
\<close>

definition subscribe ::
  "SubscriptionManager \<Rightarrow> string \<Rightarrow> string list \<Rightarrow> SubscriptionFilter option \<Rightarrow> bool option \<Rightarrow>
   nat \<Rightarrow> Subscription \<times> SubscriptionManager" where
  "subscribe sm cid pats flt snap now =
     (let n = idCounter sm + 1;
          sid = ''sub-'' @ nat_toString n;
          subscription =
            \<lparr> sub_id = sid, clientId = cid, patterns = pats,
              compiledPatterns = map patternToRegex pats,
              sub_filter = (case flt of None \<Rightarrow> FilterAll | Some f \<Rightarrow> f),
              snapshot = (case snap of None \<Rightarrow> True | Some b \<Rightarrow> b),
              snapshotSent = False, createdAt = now \<rparr>;
          clientSubs = (case Map_get (subscriptionsByClient sm) cid of
                          None \<Rightarrow> [] | Some s \<Rightarrow> s)
      in (subscription,
          sm\<lparr> subscriptionsById := Map_set (subscriptionsById sm) sid subscription,
              subscriptionsByClient :=
                Map_set (subscriptionsByClient sm) cid (Set_add clientSubs sid),
              idCounter := n \<rparr>))"

definition unsubscribe :: "SubscriptionManager \<Rightarrow> string \<Rightarrow> bool \<times> SubscriptionManager" where
  "unsubscribe sm sid =
     (case Map_get (subscriptionsById sm) sid of
        None \<Rightarrow> (False, sm)
      | Some subscription \<Rightarrow>
          (True,
           sm\<lparr> subscriptionsById := Map_delete (subscriptionsById sm) sid,
               subscriptionsByClient :=
                 (case Map_get (subscriptionsByClient sm) (clientId subscription) of
                    None \<Rightarrow> subscriptionsByClient sm
                  | Some clientSubs \<Rightarrow>
                      if removeAll sid clientSubs = []
                      then Map_delete (subscriptionsByClient sm) (clientId subscription)
                      else Map_set (subscriptionsByClient sm) (clientId subscription)
                             (removeAll sid clientSubs)) \<rparr>))"

text \<open>
  \<^verbatim>\<open>unsubscribePatterns\<close>: the loop over the client's subscription ids; a subscription one
  of whose patterns is in the given list is removed and counted.
\<close>

fun unsubscribePatterns_loop ::
  "SubscriptionManager \<Rightarrow> string list \<Rightarrow> string list \<Rightarrow> nat \<Rightarrow> nat \<times> SubscriptionManager" where
  "unsubscribePatterns_loop sm pats [] removed = (removed, sm)"
| "unsubscribePatterns_loop sm pats (subId # rest) removed =
     (case Map_get (subscriptionsById sm) subId of
        None \<Rightarrow> unsubscribePatterns_loop sm pats rest removed
      | Some subscription \<Rightarrow>
          if \<exists>p \<in> set (patterns subscription). p \<in> set pats
          then unsubscribePatterns_loop (snd (unsubscribe sm subId)) pats rest (removed + 1)
          else unsubscribePatterns_loop sm pats rest removed)"

definition unsubscribePatterns ::
  "SubscriptionManager \<Rightarrow> string \<Rightarrow> string list \<Rightarrow> nat \<times> SubscriptionManager" where
  "unsubscribePatterns sm cid pats =
     (case Map_get (subscriptionsByClient sm) cid of
        None \<Rightarrow> (0, sm)
      | Some clientSubs \<Rightarrow> unsubscribePatterns_loop sm pats clientSubs 0)"

definition unsubscribeClient :: "SubscriptionManager \<Rightarrow> string \<Rightarrow> nat \<times> SubscriptionManager" where
  "unsubscribeClient sm cid =
     (case Map_get (subscriptionsByClient sm) cid of
        None \<Rightarrow> (0, sm)
      | Some clientSubs \<Rightarrow>
          (length clientSubs,
           sm\<lparr> subscriptionsById := fold (\<lambda>subId m. Map_delete m subId) clientSubs (subscriptionsById sm),
               subscriptionsByClient := Map_delete (subscriptionsByClient sm) cid \<rparr>))"

datatype messageKind = KindState | KindEvent

definition filter_admits :: "SubscriptionFilter \<Rightarrow> messageKind option \<Rightarrow> bool" where
  "filter_admits f messageType =
     (case messageType of
        None \<Rightarrow> True
      | Some k \<Rightarrow> \<not> (f = FilterState \<and> k \<noteq> KindState) \<and> \<not> (f = FilterEvents \<and> k \<noteq> KindEvent))"

text \<open>
  \<^verbatim>\<open>getMatchingSubscriptions\<close>: each subscription whose filter admits the kind and one of
  whose compiled patterns matches, paired with the first pattern that matched.
\<close>

definition getMatchingSubscriptions ::
  "SubscriptionManager \<Rightarrow> string \<Rightarrow> messageKind option \<Rightarrow> (Subscription \<times> string) list" where
  "getMatchingSubscriptions sm p messageType =
     List.map_filter
       (\<lambda>subscription.
          if \<not> filter_admits (sub_filter subscription) messageType then None
          else map_option (\<lambda>rp. (subscription, snd rp))
                 (List.find (\<lambda>rp. RegExp_test (fst rp) p = Some True)
                    (zip (compiledPatterns subscription) (patterns subscription))))
       (map snd (subscriptionsById sm))"

definition getSubscribedClients ::
  "SubscriptionManager \<Rightarrow> string \<Rightarrow> messageKind option \<Rightarrow> string list" where
  "getSubscribedClients sm p messageType =
     fold (\<lambda>match clients. Set_add clients (clientId (fst match)))
       (getMatchingSubscriptions sm p messageType) []"

definition markSnapshotSent :: "SubscriptionManager \<Rightarrow> string \<Rightarrow> SubscriptionManager" where
  "markSnapshotSent sm sid =
     (case Map_get (subscriptionsById sm) sid of
        None \<Rightarrow> sm
      | Some subscription \<Rightarrow>
          sm\<lparr> subscriptionsById :=
                Map_set (subscriptionsById sm) sid (subscription\<lparr> snapshotSent := True \<rparr>) \<rparr>)"

section \<open>State store queries used by the router\<close>

definition getMatchingPaths :: "StateStore \<Rightarrow> string \<Rightarrow> string list" where
  "getMatchingPaths st pattern =
     filter (\<lambda>p. RegExp_test (patternToRegex pattern) p = Some True) (map fst (entries st))"

definition getMatchingEntries :: "StateStore \<Rightarrow> string \<Rightarrow> (string, StateEntry) jsmap" where
  "getMatchingEntries st pattern =
     List.map_filter (\<lambda>p. map_option (Pair p) (Map_get (entries st) p)) (getMatchingPaths st pattern)"

section \<open>Message router (core/router/router.ts)\<close>

text \<open>
  A target's handler is one of the handlers this repository registers: the client
  transport's \<^verbatim>\<open>sendToClient\<close>, which returns without raising, and the Companion adapter's
  \<^verbatim>\<open>handleBridgeMessage\<close>; \<open>FailingHandler e\<close> is a handler whose promise rejects with
  \<^verbatim>\<open>Error(e)\<close>.
\<close>

datatype handler = ClientHandler | CompanionHandler | FailingHandler string

record RouteTarget =
  target_id :: string
  namespace :: string
  handler :: handler

record PendingCommand =
  pending_message :: BridgeMessage
  sentAt :: nat

record IdempotencyEntry =
  result :: "BridgeMessage option"
  cached_at :: nat

text \<open>
  The router, together with what its handlers close over: the Companion adapter, the
  supply of message identifiers, and \<open>deliveries\<close>, the log of handler invocations
  (target and message) in the order they happen. Timers and promise resolvers are not
  modelled.
\<close>

record MessageRouter =
  targets :: "(string, RouteTarget) jsmap"
  stateStore :: StateStore
  subscriptionManager :: SubscriptionManager
  sequenceCounter :: nat
  enableIdempotency :: bool
  idempotencyTtl :: nat
  idempotencyCache :: "(string, IdempotencyEntry) jsmap"
  pendingCommands :: "(string, PendingCommand) jsmap"
  adapter :: CompanionAdapter
  uuid_counter :: nat
  deliveries :: "(RouteTarget \<times> BridgeMessage) list"

text \<open>The constructor with its default options.\<close>

definition new_MessageRouter :: "StateStore \<Rightarrow> CompanionAdapter \<Rightarrow> MessageRouter" where
  "new_MessageRouter st a =
     \<lparr> targets = [], stateStore = st, subscriptionManager = new_SubscriptionManager,
       sequenceCounter = 0, enableIdempotency = True, idempotencyTtl = 60000,
       idempotencyCache = [], pendingCommands = [], adapter = a, uuid_counter = 0,
       deliveries = [] \<rparr>"

datatype route_error = TargetAlreadyRegistered string

definition registerTarget :: "MessageRouter \<Rightarrow> RouteTarget \<Rightarrow> route_error + MessageRouter" where
  "registerTarget w t =
     (if Map_has (targets w) (namespace t) then Inl (TargetAlreadyRegistered (namespace t))
      else Inr (w\<lparr> targets := Map_set (targets w) (namespace t) t \<rparr>))"

definition unregisterTarget :: "MessageRouter \<Rightarrow> string \<Rightarrow> bool \<times> MessageRouter" where
  "unregisterTarget w ns =
     (case Map_get (targets w) ns of
        None \<Rightarrow> (False, w)
      | Some t \<Rightarrow>
          (True,
           w\<lparr> subscriptionManager := snd (unsubscribeClient (subscriptionManager w) (target_id t)),
               pendingCommands :=
                 filter (\<lambda>kv. target (pending_message (snd kv)) \<noteq> Some ns) (pendingCommands w),
               targets := Map_delete (targets w) ns \<rparr>))"

text \<open>
  \<^verbatim>\<open>findTarget\<close>: the exact namespace first; then the loop that pops the last segment and
  looks the joined prefix up, while more than one segment is left.
\<close>

function findTarget_loop :: "(string, RouteTarget) jsmap \<Rightarrow> string list \<Rightarrow> RouteTarget option" where
  "findTarget_loop tg parts =
     (if length parts > 1 then
        (case Map_get tg (join ''.'' (butlast parts)) of
           Some t \<Rightarrow> Some t
         | None \<Rightarrow> findTarget_loop tg (butlast parts))
      else None)"
  by pat_completeness auto
termination
  by (relation "measure (\<lambda>(tg, parts). length parts)") auto

declare findTarget_loop.simps [simp del]

definition findTarget :: "(string, RouteTarget) jsmap \<Rightarrow> string \<Rightarrow> RouteTarget option" where
  "findTarget tg ns =
     (case Map_get tg ns of
        Some t \<Rightarrow> Some t
      | None \<Rightarrow> findTarget_loop tg (split CHR ''.'' ns))"

definition findTargetById :: "(string, RouteTarget) jsmap \<Rightarrow> string \<Rightarrow> RouteTarget option" where
  "findTargetById tg i = List.find (\<lambda>t. target_id t = i) (map snd tg)"

datatype outcome = Returned | Threw string

text \<open>
  One call of a target's handler. The call is logged; the adapter's handler runs
  \<^verbatim>\<open>handleBridgeMessage\<close> and returns the acks it handed to \<^verbatim>\<open>router.route\<close> during the call,
  or rejects with the error the handler raised.
\<close>

definition call_handler ::
  "MessageRouter \<Rightarrow> RouteTarget \<Rightarrow> BridgeMessage \<Rightarrow> nat \<Rightarrow>
   outcome \<times> BridgeMessage list \<times> MessageRouter" where
  "call_handler w t m now =
     (let w1 = w\<lparr> deliveries := deliveries w @ [(t, m)] \<rparr> in
      case handler t of
        ClientHandler \<Rightarrow> (Returned, [], w1)
      | FailingHandler e \<Rightarrow> (Threw e, [], w1)
      | CompanionHandler \<Rightarrow>
          (case handleBridgeMessage (adapter w1) m (generateUuidV7 (uuid_counter w1)) now of
             Inl e \<Rightarrow> (Threw e, [], w1\<lparr> uuid_counter := uuid_counter w1 + 1 \<rparr>)
           | Inr (a', acks) \<Rightarrow>
               (Returned, acks, w1\<lparr> adapter := a', uuid_counter := uuid_counter w1 + 1 \<rparr>)))"

text \<open>
  \<^verbatim>\<open>handleAck\<close>. An ack is no command, so the handler it is forwarded to hands nothing back
  to the router; a failure of that handler is caught and logged.
\<close>

definition handleAck :: "MessageRouter \<Rightarrow> BridgeMessage \<Rightarrow> nat \<Rightarrow> MessageRouter" where
  "handleAck w message now =
     (case payload message of
        AckPayload st commandId res err \<Rightarrow>
          let w1 =
                (case Map_get (pendingCommands w) commandId of
                   None \<Rightarrow> w
                 | Some pending \<Rightarrow>
                     let w' = w\<lparr> pendingCommands := Map_delete (pendingCommands w) commandId \<rparr> in
                     if enableIdempotency w' \<and> \<not> falsy_string (idempotencyKey (pending_message pending))
                     then w'\<lparr> idempotencyCache :=
                                Map_set (idempotencyCache w') (the (idempotencyKey (pending_message pending)))
                                  \<lparr> result = Some message, cached_at = now \<rparr> \<rparr>
                     else w')
          in (case optional_chain (target message) (Map_get (targets w1)) of
                None \<Rightarrow> w1
              | Some sourceTarget \<Rightarrow> snd (snd (call_handler w1 sourceTarget message now)))
      | _ \<Rightarrow> w)"

text \<open>
  A handler call as the router's other paths make it: the acks the handler routed back
  during the call are handled, in order, before the call returns.
\<close>

definition invoke ::
  "MessageRouter \<Rightarrow> RouteTarget \<Rightarrow> BridgeMessage \<Rightarrow> nat \<Rightarrow> outcome \<times> MessageRouter" where
  "invoke w t m now =
     (let (out, acks, w1) = call_handler w t m now
      in (out, fold (\<lambda>ack w'. handleAck w' ack now) acks w1))"

definition sendError ::
  "MessageRouter \<Rightarrow> BridgeMessage \<Rightarrow> ErrorCode \<Rightarrow> string \<Rightarrow> nat \<Rightarrow> outcome \<times> MessageRouter" where
  "sendError w originalMessage code errorMessage now =
     (let error = createError (generateUuidV7 (uuid_counter w)) now ''hub.core''
                    (Some (source originalMessage)) (msg_path originalMessage) code errorMessage
                    (Some (msg_id originalMessage)) (correlationId originalMessage)
                    (sequenceCounter w);
          w1 = w\<lparr> sequenceCounter := sequenceCounter w + 1, uuid_counter := uuid_counter w + 1 \<rparr>
      in case Map_get (targets w1) (source originalMessage) of
           None \<Rightarrow> (Returned, w1)
         | Some sourceTarget \<Rightarrow> invoke w1 sourceTarget error now)"

text \<open>
  \<^verbatim>\<open>routeCommand\<close>. A rejection of the source's handler while the received ack is
  delivered leaves the function; a rejection of the target's handler is answered with
  ADAPTER_ERROR. A command without a target is outside the \<^verbatim>\<open>CommandMessage\<close> type and
  raises before any effect.
\<close>

definition routeCommand :: "MessageRouter \<Rightarrow> BridgeMessage \<Rightarrow> nat \<Rightarrow> MessageRouter" where
  "routeCommand w message now =
     (let cached =
            (if enableIdempotency w \<and> \<not> falsy_string (idempotencyKey message)
             then Map_get (idempotencyCache w) (the (idempotencyKey message)) else None)
      in case cached of
           Some c \<Rightarrow>
             (case result c of
                None \<Rightarrow> w
              | Some ack \<Rightarrow>
                  (case Map_get (targets w) (source message) of
                     None \<Rightarrow> w
                   | Some sourceTarget \<Rightarrow> snd (invoke w sourceTarget ack now)))
         | None \<Rightarrow>
             (case target message of
                None \<Rightarrow> w
              | Some tgt \<Rightarrow>
                  (case findTarget (targets w) tgt of
                     None \<Rightarrow>
                       snd (sendError w message UNKNOWN_TARGET (''Unknown target: '' @ tgt) now)
                   | Some t \<Rightarrow>
                       let receivedAck =
                             createAck (generateUuidV7 (uuid_counter w)) now ''hub.core''
                               (source message) (msg_path message) (msg_id message) Received
                               None None (correlationId message) (sequenceCounter w);
                           w1 = w\<lparr> sequenceCounter := sequenceCounter w + 1,
                                   uuid_counter := uuid_counter w + 1 \<rparr>;
                           (out1, w2) =
                             (case Map_get (targets w1) (source message) of
                                None \<Rightarrow> (Returned, w1)
                              | Some sourceTarget \<Rightarrow> invoke w1 sourceTarget receivedAck now)
                       in case out1 of
                            Threw e \<Rightarrow> w2
                          | Returned \<Rightarrow>
                              let (out2, w3) = invoke w2 t message now
                              in case out2 of
                                   Returned \<Rightarrow>
                                     if enableIdempotency w3 \<and> \<not> falsy_string (idempotencyKey message)
                                     then w3\<lparr> idempotencyCache :=
                                                Map_set (idempotencyCache w3) (the (idempotencyKey message))
                                                  \<lparr> result = None, cached_at = now \<rparr> \<rparr>
                                     else w3
                                 | Threw e \<Rightarrow> snd (sendError w3 message ADAPTER_ERROR e now))))"

text \<open>
  The delivery loop of \<^verbatim>\<open>routeEvent\<close> and of \<^verbatim>\<open>handleStateDelta\<close>: for each subscribed client,
  the target with that id is looked up and the message is handed to it unless the target's
  namespace is the excluded one; a failing handler is logged and the loop goes on.
\<close>

fun deliver_to_clients ::
  "MessageRouter \<Rightarrow> string list \<Rightarrow> string \<Rightarrow> BridgeMessage \<Rightarrow> nat \<Rightarrow> MessageRouter" where
  "deliver_to_clients w [] excluded m now = w"
| "deliver_to_clients w (cid # rest) excluded m now =
     (case findTargetById (targets w) cid of
        None \<Rightarrow> deliver_to_clients w rest excluded m now
      | Some t \<Rightarrow>
          if namespace t \<noteq> excluded
          then deliver_to_clients (snd (invoke w t m now)) rest excluded m now
          else deliver_to_clients w rest excluded m now)"

definition routeEvent :: "MessageRouter \<Rightarrow> BridgeMessage \<Rightarrow> nat \<Rightarrow> MessageRouter" where
  "routeEvent w message now =
     deliver_to_clients w
       (getSubscribedClients (subscriptionManager w) (msg_path message) (Some KindEvent))
       (source message) message now"

text \<open>\<^verbatim>\<open>StateStore.entryToMessage\<close>, which draws an identifier and the store's next sequence number.\<close>

definition entryToMessage ::
  "MessageRouter \<Rightarrow> string \<Rightarrow> StateEntry \<Rightarrow> nat \<Rightarrow> BridgeMessage \<times> MessageRouter" where
  "entryToMessage w p e now =
     (createState (generateUuidV7 (uuid_counter w)) now (store_source (stateStore w)) p (value e)
        (if stale e then Some True else None) (Some (owner e)) (Some (version e))
        (store_sequenceCounter (stateStore w)),
      w\<lparr> stateStore := (stateStore w)\<lparr> store_sequenceCounter := store_sequenceCounter (stateStore w) + 1 \<rparr>,
          uuid_counter := uuid_counter w + 1 \<rparr>)"

definition handleStateDelta :: "MessageRouter \<Rightarrow> StateDelta \<Rightarrow> nat \<Rightarrow> MessageRouter" where
  "handleStateDelta w delta now =
     (let (message, w1) = entryToMessage w (delta_path delta) (entry delta) now
      in deliver_to_clients w1
           (getSubscribedClients (subscriptionManager w1) (delta_path delta) (Some KindState))
           (owner (entry delta)) message now)"

definition ownership_message :: "error \<Rightarrow> string" where
  "ownership_message err =
     (case err of StateOwnershipError p currentOwner attemptedOwner \<Rightarrow>
        ''State key '' @ [CHR 0x27] @ p @ [CHR 0x27] @ '' is owned by '' @ [CHR 0x27] @ currentOwner
        @ [CHR 0x27] @ '', cannot be modified by '' @ [CHR 0x27] @ attemptedOwner @ [CHR 0x27])"

text \<open>
  \<^verbatim>\<open>routeState\<close>. The store notifies its listener, the router's \<^verbatim>\<open>handleStateDelta\<close>, from
  inside \<^verbatim>\<open>set\<close> when the write is applied.
\<close>

definition routeState :: "MessageRouter \<Rightarrow> BridgeMessage \<Rightarrow> nat \<Rightarrow> MessageRouter" where
  "routeState w message now =
     (case payload message of
        StatePayload v stl ownr ver \<Rightarrow>
          (case StateStore_set (stateStore w) (msg_path message) v (source message) now of
             Inl err \<Rightarrow> snd (sendError w message STATE_CONFLICT (ownership_message err) now)
           | Inr (None, st') \<Rightarrow> w\<lparr> stateStore := st' \<rparr>
           | Inr (Some delta, st') \<Rightarrow> handleStateDelta (w\<lparr> stateStore := st' \<rparr>) delta now)
      | _ \<Rightarrow> w)"

definition handleError :: "MessageRouter \<Rightarrow> BridgeMessage \<Rightarrow> nat \<Rightarrow> MessageRouter" where
  "handleError w message now =
     (if \<not> falsy_string (target message) then
        (case Map_get (targets w) (the (target message)) of
           None \<Rightarrow> w
         | Some t \<Rightarrow> snd (invoke w t message now))
      else w)"

text \<open>\<^verbatim>\<open>snapshotToMessages\<close>: one state message per entry, in the order of the snapshot.\<close>

fun snapshotToMessages ::
  "MessageRouter \<Rightarrow> (string \<times> StateEntry) list \<Rightarrow> nat \<Rightarrow> BridgeMessage list \<times> MessageRouter" where
  "snapshotToMessages w [] now = ([], w)"
| "snapshotToMessages w ((p, e) # rest) now =
     (let (m, w1) = entryToMessage w p e now;
          (ms, w2) = snapshotToMessages w1 rest now
      in (m # ms, w2))"

text \<open>The awaited deliveries of a list of messages to one target; a rejection stops the loop.\<close>

fun send_messages ::
  "MessageRouter \<Rightarrow> RouteTarget \<Rightarrow> BridgeMessage list \<Rightarrow> nat \<Rightarrow> outcome \<times> MessageRouter" where
  "send_messages w t [] now = (Returned, w)"
| "send_messages w t (m # ms) now =
     (case invoke w t m now of
        (Threw e, w1) \<Rightarrow> (Threw e, w1)
      | (Returned, w1) \<Rightarrow> send_messages w1 t ms now)"

text \<open>The snapshot loop of \<^verbatim>\<open>handleSubscribe\<close> over the patterns of the request.\<close>

fun stream_snapshots ::
  "MessageRouter \<Rightarrow> RouteTarget \<Rightarrow> string list \<Rightarrow> nat \<Rightarrow> outcome \<times> MessageRouter" where
  "stream_snapshots w t [] now = (Returned, w)"
| "stream_snapshots w t (pattern # rest) now =
     (let (messages, w1) = snapshotToMessages w (getMatchingEntries (stateStore w) pattern) now
      in case send_messages w1 t messages now of
           (Threw e, w2) \<Rightarrow> (Threw e, w2)
         | (Returned, w2) \<Rightarrow> stream_snapshots w2 t rest now)"

definition snapshot_complete_event :: "string \<Rightarrow> nat \<Rightarrow> nat \<Rightarrow> BridgeMessage" where
  "snapshot_complete_event sid now sq =
     \<lparr> msg_id = ''snapshot-complete-'' @ sid, source = ''hub.core'', target = None,
       msg_path = ''hub.subscriptions'',
       payload = EventPayload ''snapshot_complete'' (Some (JObj [(''subscriptionId'', JStr sid)])),
       timestamp = now, correlationId = None, sequence = sq, ttl = None,
       idempotencyKey = None \<rparr>"

text \<open>
  The snapshot block of \<^verbatim>\<open>handleSubscribe\<close>: the snapshot messages of every pattern, then the
  \<^verbatim>\<open>snapshot_complete\<close> event, then \<^verbatim>\<open>markSnapshotSent\<close>; a rejection of the handler leaves the
  block at once.
\<close>

definition send_snapshot ::
  "MessageRouter \<Rightarrow> RouteTarget \<Rightarrow> string \<Rightarrow> string list \<Rightarrow> nat \<Rightarrow> MessageRouter" where
  "send_snapshot w sourceTarget sid pats now =
     (case stream_snapshots w sourceTarget pats now of
        (Threw e, w3) \<Rightarrow> w3
      | (Returned, w3) \<Rightarrow>
          let completeEvent = snapshot_complete_event sid now (sequenceCounter w3);
              w4 = w3\<lparr> sequenceCounter := sequenceCounter w3 + 1 \<rparr>
          in (case invoke w4 sourceTarget completeEvent now of
                (Threw e, w5) \<Rightarrow> w5
              | (Returned, w5) \<Rightarrow>
                  w5\<lparr> subscriptionManager := markSnapshotSent (subscriptionManager w5) sid \<rparr>))"

text \<open>
  \<^verbatim>\<open>handleSubscribe\<close>. The subscription manager receives \<^verbatim>\<open>payload.snapshot\<close> as it is
  (\<open>None\<close> when omitted); the router enters the snapshot block when \<^verbatim>\<open>payload.snapshot\<close> is
  truthy.
\<close>

definition handleSubscribe :: "MessageRouter \<Rightarrow> BridgeMessage \<Rightarrow> nat \<Rightarrow> MessageRouter" where
  "handleSubscribe w message now =
     (case payload message of
        SubscribePayload pats flt snap \<Rightarrow>
          let (subscription, sm') = subscribe (subscriptionManager w) (source message) pats flt snap now;
              ack = createAck (generateUuidV7 (uuid_counter w)) now ''hub.core'' (source message)
                      (msg_path message) (msg_id message) Completed
                      (Some (JObj [(''subscriptionId'', JStr (sub_id subscription))])) None
                      (correlationId message) (sequenceCounter w);
              w1 = w\<lparr> subscriptionManager := sm', sequenceCounter := sequenceCounter w + 1,
                      uuid_counter := uuid_counter w + 1 \<rparr>
          in (case Map_get (targets w1) (source message) of
                None \<Rightarrow> w1
              | Some sourceTarget \<Rightarrow>
                  (case invoke w1 sourceTarget ack now of
                     (Threw e, w2) \<Rightarrow> w2
                   | (Returned, w2) \<Rightarrow>
                       if snap = Some True
                       then send_snapshot w2 sourceTarget (sub_id subscription) pats now
                       else w2))
      | _ \<Rightarrow> w)"

definition handleUnsubscribe :: "MessageRouter \<Rightarrow> BridgeMessage \<Rightarrow> nat \<Rightarrow> MessageRouter" where
  "handleUnsubscribe w message now =
     (case payload message of
        UnsubscribePayload pats \<Rightarrow>
          let (removed, sm') = unsubscribePatterns (subscriptionManager w) (source message) pats;
              ack = createAck (generateUuidV7 (uuid_counter w)) now ''hub.core'' (source message)
                      (msg_path message) (msg_id message) Completed
                      (Some (JObj [(''removedCount'', JNum (int removed))])) None
                      (correlationId message) (sequenceCounter w);
              w1 = w\<lparr> subscriptionManager := sm', sequenceCounter := sequenceCounter w + 1,
                      uuid_counter := uuid_counter w + 1 \<rparr>
          in (case Map_get (targets w1) (source message) of
                None \<Rightarrow> w1
              | Some sourceTarget \<Rightarrow> snd (invoke w1 sourceTarget ack now))
      | _ \<Rightarrow> w)"

definition route :: "MessageRouter \<Rightarrow> BridgeMessage \<Rightarrow> nat \<Rightarrow> MessageRouter" where
  "route w message now =
     (case payload message of
        CommandPayload _ _ \<Rightarrow> routeCommand w message now
      | EventPayload _ _ \<Rightarrow> routeEvent w message now
      | StatePayload _ _ _ _ \<Rightarrow> routeState w message now
      | AckPayload _ _ _ _ \<Rightarrow> handleAck w message now
      | ErrorPayload _ _ _ \<Rightarrow> handleError w message now
      | SubscribePayload _ _ _ \<Rightarrow> handleSubscribe w message now
      | UnsubscribePayload _ \<Rightarrow> handleUnsubscribe w message now)"

definition cleanupExpired :: "MessageRouter \<Rightarrow> nat \<Rightarrow> MessageRouter" where
  "cleanupExpired w now =
     w\<lparr> idempotencyCache :=
          filter (\<lambda>kv. \<not> (now - cached_at (snd kv) > idempotencyTtl w * 2)) (idempotencyCache w) \<rparr>"

text \<open>
  Writes that an adapter makes on the store directly: \<^verbatim>\<open>stateStore.set\<close> (an ownership error
  is raised to the adapter and changes nothing) and \<^verbatim>\<open>stateStore.markOwnerStale\<close>; each delta
  reaches the router's listener.
\<close>

definition store_set :: "MessageRouter \<Rightarrow> string \<Rightarrow> jvalue \<Rightarrow> string \<Rightarrow> nat \<Rightarrow> MessageRouter" where
  "store_set w p v ownr now =
     (case StateStore_set (stateStore w) p v ownr now of
        Inl err \<Rightarrow> w
      | Inr (None, st') \<Rightarrow> w\<lparr> stateStore := st' \<rparr>
      | Inr (Some delta, st') \<Rightarrow> handleStateDelta (w\<lparr> stateStore := st' \<rparr>) delta now)"

definition store_markOwnerStale :: "MessageRouter \<Rightarrow> string \<Rightarrow> nat \<Rightarrow> MessageRouter" where
  "store_markOwnerStale w ownr now =
     (let (ds, st') = StateStore_markOwnerStale (stateStore w) ownr now
      in fold (\<lambda>d w'. handleStateDelta w' d now) ds (w\<lparr> stateStore := st' \<rparr>))"

text \<open>What can happen to a running router, one event at a time.\<close>

datatype input =
    Route BridgeMessage nat
  | RegisterTarget RouteTarget
  | UnregisterTarget string
  | CleanupExpired nat
  | StoreSet string jvalue string nat
  | MarkOwnerStale string nat

fun step :: "MessageRouter \<Rightarrow> input \<Rightarrow> MessageRouter" where
  "step w (Route m now) = route w m now"
| "step w (RegisterTarget t) = (case registerTarget w t of Inl _ \<Rightarrow> w | Inr w' \<Rightarrow> w')"
| "step w (UnregisterTarget ns) = snd (unregisterTarget w ns)"
| "step w (CleanupExpired now) = cleanupExpired w now"
| "step w (StoreSet p v ownr now) = store_set w p v ownr now"
| "step w (MarkOwnerStale ownr now) = store_markOwnerStale w ownr now"

definition run :: "MessageRouter \<Rightarrow> input list \<Rightarrow> MessageRouter" where
  "run w inputs = fold (\<lambda>i w'. step w' i) inputs w"

section \<open>A running hub used in the examples\<close>

text \<open>
  A router with default options over an empty store, after the client transport has
  registered the session of client \<^verbatim>\<open>app.x\<close> and the Companion adapter (device \<^verbatim>\<open>dev\<close>, socket
  open) has registered its two targets, as \<^verbatim>\<open>CompanionAdapter.connect\<close> does.
\<close>

definition client_target :: RouteTarget where
  "client_target = \<lparr> target_id = ''session-1'', namespace = ''app.x'', handler = ClientHandler \<rparr>"

definition satellite_target :: RouteTarget where
  "satellite_target =
     \<lparr> target_id = ''companion-adapter-dev'', namespace = ''companion.satellite'',
       handler = CompanionHandler \<rparr>"

definition companion_target :: RouteTarget where
  "companion_target =
     \<lparr> target_id = ''companion-adapter-dev-commands'', namespace = ''companion'',
       handler = CompanionHandler \<rparr>"

definition example_router :: MessageRouter where
  "example_router =
     (new_MessageRouter (new_StateStore ''hub.core'') (example_adapter True))
       \<lparr> targets := [(''app.x'', client_target), (''companion.satellite'', satellite_target),
                     (''companion'', companion_target)] \<rparr>"

definition press_5 :: BridgeMessage where
  "press_5 = example_command ''cmd-1'' ''press'' (Some [(''keyIndex'', JNum 5)])"

section \<open>Notions used to state the router's properties\<close>

text \<open>
  The resolution order of the specification: the namespace itself, then the namespaces
  left after trimming one, two, ... trailing dot-segments, down to the first segment.
\<close>

definition resolution_order :: "string \<Rightarrow> string list" where
  "resolution_order ns =
     ns # map (\<lambda>k. join ''.'' (take k (split CHR ''.'' ns)))
            (rev [1 ..< length (split CHR ''.'' ns)])"

definition first_registered :: "(string, RouteTarget) jsmap \<Rightarrow> string list \<Rightarrow> RouteTarget option" where
  "first_registered tg candidates =
     (case List.map_filter (Map_get tg) candidates of [] \<Rightarrow> None | t # _ \<Rightarrow> Some t)"

text \<open>The command is answered from the idempotency cache instead of being resolved.\<close>

definition cache_hit :: "MessageRouter \<Rightarrow> BridgeMessage \<Rightarrow> bool" where
  "cache_hit w m \<longleftrightarrow>
     enableIdempotency w \<and> \<not> falsy_string (idempotencyKey m) \<and>
     Map_get (idempotencyCache w) (the (idempotencyKey m)) \<noteq> None"

text \<open>The handler calls made after the state \<open>w\<close>, read off a later state \<open>w'\<close>.\<close>

definition new_deliveries :: "MessageRouter \<Rightarrow> MessageRouter \<Rightarrow> (RouteTarget \<times> BridgeMessage) list" where
  "new_deliveries w w' = drop (length (deliveries w)) (deliveries w')"

text \<open>
  What a state message says (its path and payload), what the state message of a store
  entry says, and what the snapshot of a pattern list says: for each pattern in turn, the
  entries it matches in the order the store enumerates them.
\<close>

definition state_content :: "BridgeMessage \<Rightarrow> string \<times> payload" where
  "state_content m = (msg_path m, payload m)"

definition entry_content :: "string \<times> StateEntry \<Rightarrow> string \<times> payload" where
  "entry_content pe =
     (fst pe,
      StatePayload (value (snd pe)) (if stale (snd pe) then Some True else None)
        (Some (owner (snd pe))) (Some (version (snd pe))))"

definition snapshot_content :: "StateStore \<Rightarrow> string list \<Rightarrow> (string \<times> payload) list" where
  "snapshot_content st pats = concat (map (\<lambda>p. map entry_content (getMatchingEntries st p)) pats)"

definition handler_fails :: "RouteTarget \<Rightarrow> bool" where
  "handler_fails t = (case handler t of FailingHandler _ \<Rightarrow> True | _ \<Rightarrow> False)"

text \<open>
  Every subscription id in the manager was issued by its counter; and: the subscription
  \<open>sid\<close>, as long as it exists, still asks for a snapshot that has not been marked sent.
\<close>

definition ids_bounded :: "SubscriptionManager \<Rightarrow> bool" where
  "ids_bounded sm \<longleftrightarrow>
     (\<forall>k \<in> fst ` set (subscriptionsById sm). \<exists>n. n \<le> idCounter sm \<and> k = ''sub-'' @ nat_toString n)"

definition awaiting_snapshot :: "SubscriptionManager \<Rightarrow> string \<Rightarrow> bool" where
  "awaiting_snapshot sm sid \<longleftrightarrow>
     (case Map_get (subscriptionsById sm) sid of
        None \<Rightarrow> True
      | Some s \<Rightarrow> snapshot s \<and> \<not> snapshotSent s)"

definition keeps_waiting :: "SubscriptionManager \<Rightarrow> nat \<Rightarrow> bool" where
  "keeps_waiting sm n \<longleftrightarrow>
     ids_bounded sm \<and> n \<le> idCounter sm \<and> awaiting_snapshot sm (''sub-'' @ nat_toString n)"

section \<open>Scenarios\<close>

text \<open>
  A hub whose store holds one entry written by \<^verbatim>\<open>app.y\<close>, and a state message by which
  \<^verbatim>\<open>app.x\<close> tries to overwrite it.
\<close>

definition level_entry :: StateEntry where
  "level_entry =
     \<lparr> value = JNum 1, owner = ''app.y'', version = 1, stale = False, updatedAt = 500,
       path = ''app.y.level'' \<rparr>"

definition owned_router :: MessageRouter where
  "owned_router =
     example_router
       \<lparr> stateStore := (new_StateStore ''hub.core'')
            \<lparr> entries := [(''app.y.level'', level_entry)], globalVersion := 1 \<rparr> \<rparr>"

definition conflicting_write :: BridgeMessage where
  "conflicting_write =
     \<lparr> msg_id = ''st-1'', source = ''app.x'', target = None, msg_path = ''app.y.level'',
       payload = StatePayload (JNum 2) None None None, timestamp = 1000, correlationId = None,
       sequence = 1, ttl = None, idempotencyKey = None \<rparr>"

text \<open>Subscribe requests of \<^verbatim>\<open>app.x\<close>, with the snapshot asked for and with the field left out.\<close>

definition subscribe_request :: "bool option \<Rightarrow> BridgeMessage" where
  "subscribe_request snap =
     \<lparr> msg_id = ''req-1'', source = ''app.x'', target = Some ''hub.core'',
       msg_path = ''hub.subscriptions'', payload = SubscribePayload [''app.**''] None snap,
       timestamp = 1000, correlationId = None, sequence = 1, ttl = None,
       idempotencyKey = None \<rparr>"

text \<open>
  A hub where only the namespace \<^verbatim>\<open>companion\<close> is registered for the adapter, and a press
  addressed to a namespace nobody serves.
\<close>

definition prefix_router :: MessageRouter where
  "prefix_router =
     example_router \<lparr> targets := [(''app.x'', client_target), (''companion'', companion_target)] \<rparr>"

definition stray_press :: BridgeMessage where
  "stray_press = press_5 \<lparr> target := Some ''atem.me'' \<rparr>"

text \<open>
  Two clients whose target ids are their namespaces, both subscribed to \<^verbatim>\<open>studio.**\<close>; an
  event published by the first; and the delta of an entry the first owns.
\<close>

definition origin_target :: RouteTarget where
  "origin_target = \<lparr> target_id = ''app.x'', namespace = ''app.x'', handler = ClientHandler \<rparr>"

definition listener_target :: RouteTarget where
  "listener_target = \<lparr> target_id = ''app.y'', namespace = ''app.y'', handler = ClientHandler \<rparr>"

definition fanout_router :: MessageRouter where
  "fanout_router =
     example_router
       \<lparr> targets := [(''app.x'', origin_target), (''app.y'', listener_target)],
         subscriptionManager :=
           snd (subscribe
                  (snd (subscribe new_SubscriptionManager ''app.x'' [''studio.**''] None None 0))
                  ''app.y'' [''studio.**''] None None 0) \<rparr>"

definition tally_event :: BridgeMessage where
  "tally_event =
     \<lparr> msg_id = ''ev-1'', source = ''app.x'', target = None, msg_path = ''studio.tally'',
       payload = EventPayload ''cut'' None, timestamp = 1000, correlationId = None,
       sequence = 1, ttl = None, idempotencyKey = None \<rparr>"

definition tally_delta :: StateDelta where
  "tally_delta =
     \<lparr> delta_path = ''studio.level'',
       entry = \<lparr> value = JNum 3, owner = ''app.x'', version = 1, stale = False, updatedAt = 1000,
                 path = ''studio.level'' \<rparr>,
       previousVersion = None \<rparr>"

text \<open>A hub just started, after the client transport has registered the session of \<^verbatim>\<open>app.x\<close>.\<close>

definition started_router :: MessageRouter where
  "started_router =
     run (new_MessageRouter (new_StateStore ''hub.core'') (example_adapter True))
       [RegisterTarget client_target]"

section \<open>Basic facts about the JavaScript helpers\<close>

lemma nat_toString_digit: "n < 10 \<Longrightarrow> nat_toString n = [digit_char n]"
  by (subst nat_toString.simps) simp

lemma digit_char_0: "digit_char 0 = CHR ''0''"
  by code_simp

lemma int_toString_0: "int_toString 0 = ''0''"
  by (simp add: int_toString_def nat_toString_digit digit_char_0)

lemma digit_chars:
  "digit_char 0 = CHR ''0''" "digit_char (Suc 0) = CHR ''1''" "digit_char 5 = CHR ''5''"
  by code_simp+


lemma Map_get_set: "Map_get (Map_set m k v) k' = (if k' = k then Some v else Map_get m k')"
  by (induction m) (auto simp: Map_get_def)

lemma keys_Map_set_aux: "set (map fst (Map_set m k v)) = insert k (set (map fst m))"
proof (induction m)
  case Nil
  show ?case by simp
next
  case (Cons a m)
  obtain k' v' where a: "a = (k', v')" by (cases a)
  show ?case
  proof (cases "k' = k")
    case True
    then show ?thesis by (simp add: a)
  next
    case False
    then show ?thesis using Cons by (simp add: a insert_commute)
  qed
qed

lemma keys_Map_set: "fst ` set (Map_set m k v) = insert k (fst ` set m)"
  using keys_Map_set_aux [of m k v] by simp

lemma Map_get_delete: "Map_get (Map_delete m k) k' = (if k' = k then None else Map_get m k')"
  by (induction m) (auto simp: Map_get_def Map_delete_def)

lemma keys_Map_delete: "fst ` set (Map_delete m k) \<subseteq> fst ` set m"
  by (auto simp: Map_delete_def)

lemma nat_toString_nonempty: "nat_toString n \<noteq> []"
  by (subst nat_toString.simps) simp

lemma digit_char_inj: "a < 10 \<Longrightarrow> b < 10 \<Longrightarrow> digit_char a = digit_char b \<Longrightarrow> a = b"
  by (simp add: digit_char_def char_of_eq_iff take_bit_nat_eq_self)

lemma nat_toString_inj: "nat_toString a = nat_toString b \<Longrightarrow> a = b"
proof (induction a arbitrary: b rule: nat_toString.induct)
  case (1 n)
  show ?case
  proof (cases "n < 10")
    case True
    show ?thesis
    proof (cases "b < 10")
      case b: True
      with True 1(2) show ?thesis
        by (simp add: nat_toString_digit digit_char_inj)
    next
      case b: False
      have "nat_toString b = nat_toString (b div 10) @ [digit_char (b mod 10)]"
        using b by (subst nat_toString.simps) simp
      with True 1(2) nat_toString_nonempty [of "b div 10"] show ?thesis
        by (simp add: nat_toString_digit)
    qed
  next
    case False
    have n: "nat_toString n = nat_toString (n div 10) @ [digit_char (n mod 10)]"
      using False by (subst nat_toString.simps) simp
    show ?thesis
    proof (cases "b < 10")
      case b: True
      with n 1(2) nat_toString_nonempty [of "n div 10"] show ?thesis
        by (simp add: nat_toString_digit)
    next
      case b: False
      have "nat_toString b = nat_toString (b div 10) @ [digit_char (b mod 10)]"
        using b by (subst nat_toString.simps) simp
      with n 1(2) have e: "nat_toString (n div 10) = nat_toString (b div 10)"
        and d: "digit_char (n mod 10) = digit_char (b mod 10)" by simp_all
      from 1(1) [OF False e] have "n div 10 = b div 10" .
      moreover from d have "n mod 10 = b mod 10" by (intro digit_char_inj) simp_all
      ultimately show ?thesis by (metis div_mult_mod_eq)
    qed
  qed
qed


section \<open>Properties of the pattern language\<close>

lemma replaceAll_Nil [simp]: "replaceAll n r [] = []"
  by (subst replaceAll.simps) simp

lemma replaceAll_hit: "n \<noteq> [] \<Longrightarrow> replaceAll n r (n @ s) = r @ replaceAll n r s"
  by (subst replaceAll.simps) (cases n; simp)

lemma replaceAll_miss: "n = [] \<or> \<not> prefix n (c # s) \<Longrightarrow> replaceAll n r (c # s) = c # replaceAll n r s"
  by (subst replaceAll.simps) auto

lemma replaceAll_same_aux: "rep = n \<Longrightarrow> replaceAll n rep s = s"
proof (induction n rep s rule: replaceAll.induct)
  case (1 n rep s)
  show ?case
  proof (cases s)
    case Nil then show ?thesis by simp
  next
    case (Cons c r)
    show ?thesis
    proof (cases "n \<noteq> [] \<and> prefix n s")
      case True
      then obtain t where t: "s = n @ t" by (auto simp: prefix_def)
      with True 1(1)[OF Cons] 1(3) have "replaceAll n n t = t" by simp
      with True t 1(3) show ?thesis by (simp add: replaceAll_hit)
    next
      case False
      with 1(2)[OF Cons] Cons 1(3) have "replaceAll n n r = r" by simp
      moreover from False Cons have "n = [] \<or> \<not> prefix n (c # r)" by auto
      ultimately show ?thesis using Cons 1(3) by (simp add: replaceAll_miss)
    qed
  qed
qed

lemma replaceAll_same: "replaceAll n n s = s"
  by (simp add: replaceAll_same_aux)

lemma star_not_special: "\<not> regex_special CHR ''*''"
  by (simp add: regex_special_def)

lemma escape_Cons: "escape_special (c # s) = (if regex_special c then [CHR 0x5C, c] else [c]) @ escape_special s"
  by (simp add: escape_special_def)

lemma escape_Nil: "escape_special [] = []"
  by (simp add: escape_special_def)

lemma hit_stars:
  "replaceAll ''**'' r (CHR ''*'' # CHR ''*'' # s) = r @ replaceAll ''**'' r s"
  using replaceAll_hit [of "''**''" r s] by simp

lemma passA_ok: "replaceAll ''**'' ''{{DOUBLE_STAR}}'' (escape_special p) = concat (map passA (spec_translate p))"
proof (induction p rule: spec_translate.induct)
  case 1 show ?case by (simp add: escape_Nil)
next
  case (2 c)
  show ?case by (simp add: escape_Cons escape_Nil replaceAll_miss star_not_special)
next
  case (3 c d r)
  show ?case
  proof (cases "c = CHR ''*''")
    case True
    show ?thesis
    proof (cases "d = CHR ''*''")
      case d: True
      then show ?thesis using 3(1) True
        by (simp add: escape_Cons star_not_special hit_stars)
    next
      case d: False
      then show ?thesis using 3(2) True
        by (simp add: escape_Cons replaceAll_miss star_not_special)
    qed
  next
    case False
    then show ?thesis using 3(3)
      by (simp add: escape_Cons replaceAll_miss)
  qed
qed

lemma replaceAll_char:
  "replaceAll [x] r s = concat (map (\<lambda>c. if c = x then r else [c]) s)"
proof (induction s)
  case Nil show ?case by simp
next
  case (Cons c s)
  show ?case
  proof (cases "c = x")
    case True
    then show ?thesis using Cons replaceAll_hit [of "[x]" r s] by simp
  next
    case False
    then show ?thesis using Cons by (simp add: replaceAll_miss)
  qed
qed

lemma passB_ok:
  "replaceAll ''*'' ''[^.]+'' (concat (map passA (spec_translate p))) = concat (map passB (spec_translate p))"
  unfolding replaceAll_char
  by (induction p rule: spec_translate.induct) (auto simp: star_not_special)

lemma hit_placeholder:
  "replaceAll ''{{DOUBLE_STAR}}'' r (''{{DOUBLE_STAR}}'' @ s) = r @ replaceAll ''{{DOUBLE_STAR}}'' r s"
  by (rule replaceAll_hit) simp

lemma miss_placeholder:
  "c \<noteq> CHR ''{'' \<Longrightarrow>
   replaceAll ''{{DOUBLE_STAR}}'' r (c # s) = c # replaceAll ''{{DOUBLE_STAR}}'' r s"
  by (rule replaceAll_miss) simp

lemma miss_brace:
  "\<not> prefix ''{D'' s \<Longrightarrow>
   replaceAll ''{{DOUBLE_STAR}}'' r (CHR ''{'' # s) = CHR ''{'' # replaceAll ''{{DOUBLE_STAR}}'' r s"
  by (rule replaceAll_miss) (auto simp: prefix_def)

lemma passB_head: "\<not> prefix ''{D'' (concat (map passB (spec_translate p)))"
  by (cases p rule: spec_translate.cases) (auto simp: prefix_def regex_special_def)

lemma passC_ok:
  "replaceAll ''{{DOUBLE_STAR}}'' ''.*'' (concat (map passB (spec_translate p)))
     = concat (map glob_regex (spec_translate p))"
proof (induction p rule: spec_translate.induct)
  case 1 show ?case by simp
next
  case (2 c)
  show ?case
    by (cases "c = CHR ''{''") (auto simp: miss_placeholder miss_brace prefix_def regex_special_def)
next
  case (3 c d r)
  show ?case
  proof (cases "c = CHR ''*''")
    case True
    show ?thesis
    proof (cases "d = CHR ''*''")
      case d: True
      then show ?thesis using 3(1) True hit_placeholder [of "''.*''" "concat (map passB (spec_translate r))"]
        by simp
    next
      case d: False
      then show ?thesis using 3(2) True
        by (simp add: miss_placeholder)
    qed
  next
    case False
    have h: "\<not> prefix ''{D'' (concat (map passB (spec_translate (d # r))))"
      by (rule passB_head)
    show ?thesis
    proof (cases "c = CHR ''{''")
      case True
      then show ?thesis using 3(3) False h
        by (simp add: miss_placeholder miss_brace regex_special_def)
    next
      case c: False
      then show ?thesis using 3(3) False
        by (simp add: miss_placeholder)
    qed
  qed
qed

lemma patternToRegex_eq:
  "patternToRegex p = ''^'' @ concat (map glob_regex (spec_translate p)) @ ''$''"
  by (simp add: patternToRegex_def replaceAll_same passA_ok passB_ok passC_ok Let_def)


lemma parse_Nil: "parse_regex [] = Some []"
  by (subst parse_regex.simps) simp

lemma parse_escaped:
  "regex_special d \<Longrightarrow>
   parse_regex (CHR 0x5C # d # r) = map_option ((#) (Lit d)) (parse_regex r)"
  by (subst parse_regex.simps) simp

lemma parse_plain:
  "\<not> regex_special c \<Longrightarrow> c \<noteq> CHR ''*'' \<Longrightarrow>
   parse_regex (c # r) = map_option ((#) (Lit c)) (parse_regex r)"
  by (subst parse_regex.simps) (auto simp: regex_special_def)

lemma parse_NotDotPlus:
  "parse_regex (''[^.]+'' @ r) = map_option ((#) NotDotPlus) (parse_regex r)"
  by (subst parse_regex.simps) simp

lemma parse_DotStar:
  "parse_regex (''.*'' @ r) = map_option ((#) DotStar) (parse_regex r)"
  by (subst parse_regex.simps) simp

lemma parse_Begin:
  "parse_regex (CHR ''^'' # r) = map_option ((#) Begin) (parse_regex r)"
  by (subst parse_regex.simps) simp

lemma parse_End: "parse_regex ''$'' = Some [End]"
  by (subst parse_regex.simps) (simp add: parse_Nil)

lemma parse_glob:
  "parse_regex (glob_regex g @ r) =
     (if g = GLit CHR ''*'' then None else map_option ((#) (glob_atom g)) (parse_regex r))"
proof (cases g)
  case (GLit c)
  show ?thesis
  proof (cases "regex_special c")
    case True
    then have "c \<noteq> CHR ''*''" by (auto simp: regex_special_def)
    with True GLit show ?thesis by (simp add: parse_escaped)
  next
    case False
    show ?thesis
    proof (cases "c = CHR ''*''")
      case True
      then show ?thesis using GLit False by (subst parse_regex.simps) (simp add: regex_special_def)
    next
      case c: False
      with False GLit show ?thesis by (simp add: parse_plain)
    qed
  qed
next
  case GStar
  then show ?thesis using parse_NotDotPlus [of r] by simp
next
  case GDoubleStar
  then show ?thesis using parse_DotStar [of r] by simp
qed

lemma translate_no_star: "GLit CHR ''*'' \<notin> set (spec_translate p)"
  by (induction p rule: spec_translate.induct) auto

lemma parse_globs:
  "GLit CHR ''*'' \<notin> set gs \<Longrightarrow>
   parse_regex (concat (map glob_regex gs) @ ''$'') = Some (map glob_atom gs @ [End])"
proof (induction gs)
  case Nil
  show ?case using parse_End by simp
next
  case (Cons g gs)
  then show ?case using parse_glob [of g "concat (map glob_regex gs) @ ''$''"] by auto
qed

lemma parse_patternToRegex:
  "parse_regex (patternToRegex p) = Some (Begin # map glob_atom (spec_translate p) @ [End])"
  using parse_globs [OF translate_no_star, of p]
  by (simp add: patternToRegex_eq parse_Begin)

lemma search_Begin_False: "regex_search (Begin # as) s False = False"
  by (induction s) auto

lemma search_Begin: "regex_search (Begin # as) s True = regex_match as s True"
  by (cases s) (auto simp: search_Begin_False)

lemma match_globs: "regex_match (map glob_atom gs @ [End]) s b = spec_matches gs s"
proof (induction gs s arbitrary: b rule: spec_matches.induct)
  case (1 s)
  show ?case by simp
next
  case (2 c gs s)
  then show ?case by (cases s) auto
next
  case (3 gs s)
  then show ?case by (cases s) auto
next
  case (4 gs s)
  then show ?case by (cases s) auto
qed

lemma RegExp_test_pattern:
  "RegExp_test (patternToRegex pattern) p = Some (spec_matches (spec_translate pattern) p)"
  by (simp add: RegExp_test_def parse_patternToRegex search_Begin match_globs)

lemma pathMatchesPattern_spec:
  "pathMatchesPattern p pattern = Some (spec_matches (spec_translate pattern) p)"
  by (simp add: pathMatchesPattern_def RegExp_test_pattern)

lemma double_star_stops_at_line_separator:
  "pathMatchesPattern (''a.'' @ [CHR 0xE2, CHR 0x80, CHR 0xA8] @ ''b'') ''a.**'' = Some False"
  "pathMatchesPattern ''a.b.c'' ''a.**'' = Some True"
  by (simp_all add: pathMatchesPattern_spec line_terminator_at_def)

text \<open>
  Claim C3, counterexample: the pattern \<^verbatim>\<open>a.**\<close> does not match the path \<^verbatim>\<open>a\<close>. The
  translation keeps the dot before the wildcard as a literal character, so the two
  readings the claim calls equivalent differ on this input.
\<close>

theorem double_star_needs_dot: "pathMatchesPattern ''a'' ''a.**'' = Some False"
  by (simp add: pathMatchesPattern_spec)

text \<open>
  Claim C3, as amended: for every pattern and path, \<^verbatim>\<open>pathMatchesPattern\<close> holds exactly when
  the path matches the anchored translation of the pattern, in which \<^verbatim>\<open>**\<close> stands for
  \<^verbatim>\<open>.*\<close> (any run of characters, dots included, possibly empty, that holds none of the
  line terminators LF, CR, U+2028 and U+2029), a remaining \<^verbatim>\<open>*\<close> for \<^verbatim>\<open>[^.]+\<close> (one non-empty
  segment without a dot), and a dot or any other regular-expression metacharacter for
  itself.
\<close>

theorem pathMatchesPattern_translation:
  "pathMatchesPattern p pattern = Some (spec_matches (spec_translate pattern) p)"
  by (rule pathMatchesPattern_spec)

section \<open>Properties of the state store\<close>

lemma Map_get_set_same: "Map_get (Map_set m k v) k = Some v"
  by (induction m) (auto simp: Map_get_def)

lemma valueChanged_iff: "valueChanged a b \<longleftrightarrow> \<not> structurally_equal a b"
  by (auto simp: valueChanged_def structurally_equal_def)

lemma set_then_get_aux:
  assumes "StateStore_set st P v ownr now = Inr (d, st')"
  shows "\<exists>e. StateStore_get st' P = Some e \<and> structurally_equal (value e) v \<and> owner e = ownr \<and>
             (case StateStore_get st P of
                Some held \<Rightarrow>
                  if structurally_equal (value held) v
                  then d = None \<and> st' = st \<and> e = held
                  else d = Some \<lparr> delta_path = P, entry = e, previousVersion = Some (version held) \<rparr>
                       \<and> \<not> stale e
              | None \<Rightarrow>
                  d = Some \<lparr> delta_path = P, entry = e, previousVersion = None \<rparr> \<and> \<not> stale e)"
proof (cases "Map_get (entries st) P")
  case None
  with assms show ?thesis
    by (auto simp: StateStore_set_def StateStore_get_def Map_get_set_same structurally_equal_def Let_def)
next
  case (Some ex)
  with assms show ?thesis
    by (auto simp: StateStore_set_def StateStore_get_def Map_get_set_same valueChanged_iff
          structurally_equal_def Let_def split: if_splits)
qed

lemma stale_store_eq:
  "stale_store =
     \<lparr> entries = [(''x.y'', \<lparr> value = JNum 1, owner = ''app.a'', version = 2, stale = True,
                              updatedAt = 2, path = ''x.y'' \<rparr>)],
       globalVersion = 2, store_sequenceCounter = 0, store_source = ''hub.core'' \<rparr>"
  by (simp add: stale_store_def StateStore_set_def new_StateStore_def Map_get_def
        StateStore_markOwnerStale_def Let_def)

text \<open>
  Claim C2, counterexample: in the store reached by \<^verbatim>\<open>set('x.y', 1, 'app.a')\<close> and
  \<^verbatim>\<open>markOwnerStale('app.a')\<close>, the owner's write of the same value passes the ownership
  check, is suppressed, and leaves the entry flagged stale.
\<close>

theorem suppressed_write_keeps_stale:
  "StateStore_set stale_store ''x.y'' (JNum 1) ''app.a'' 3 = Inr (None, stale_store) \<and>
   map_option stale (StateStore_get stale_store ''x.y'') = Some True"
  by (simp add: stale_store_eq StateStore_set_def StateStore_get_def Map_get_def valueChanged_def)

text \<open>
  Claim C2, as amended: when \<^verbatim>\<open>set(P, v, O)\<close> does not fail the ownership check, \<^verbatim>\<open>get(P)\<close>
  returns an entry whose value is structurally equal to \<open>v\<close> and whose owner is \<open>O\<close>. If the
  store already held for \<open>P\<close> a value structurally equal to \<open>v\<close>, the write is suppressed: no
  delta is returned, the store is unchanged, and the entry is the one held before, stale
  flag included. Otherwise the write is applied: a delta carrying the new entry is
  returned and the entry's stale flag is false.
\<close>

theorem set_then_get:
  assumes "StateStore_set st P v ownr now = Inr (d, st')"
  shows "\<exists>e. StateStore_get st' P = Some e \<and> structurally_equal (value e) v \<and> owner e = ownr \<and>
             (case StateStore_get st P of
                Some held \<Rightarrow>
                  if structurally_equal (value held) v
                  then d = None \<and> st' = st \<and> e = held
                  else d = Some \<lparr> delta_path = P, entry = e, previousVersion = Some (version held) \<rparr>
                       \<and> \<not> stale e
              | None \<Rightarrow>
                  d = Some \<lparr> delta_path = P, entry = e, previousVersion = None \<rparr> \<and> \<not> stale e)"
  using assms by (rule set_then_get_aux)

text \<open>
  Witness for C2, on the store whose entry \<^verbatim>\<open>x.y\<close> holds 1 and is flagged stale: the owner's
  write of 2 is applied and clears the flag; the owner's write of 1 is suppressed and the
  entry read back is the stale one.
\<close>

theorem set_then_get_witness:
  "(\<exists>d st' e. StateStore_set stale_store ''x.y'' (JNum 2) ''app.a'' 3 = Inr (Some d, st') \<and>
       StateStore_get st' ''x.y'' = Some e \<and> entry d = e \<and>
       structurally_equal (value e) (JNum 2) \<and> owner e = ''app.a'' \<and> \<not> stale e) \<and>
   (\<exists>e. StateStore_set stale_store ''x.y'' (JNum 1) ''app.a'' 3 = Inr (None, stale_store) \<and>
       StateStore_get stale_store ''x.y'' = Some e \<and>
       structurally_equal (value e) (JNum 1) \<and> owner e = ''app.a'' \<and> stale e)"
proof -
  obtain d st' where h: "StateStore_set stale_store ''x.y'' (JNum 2) ''app.a'' 3 = Inr (d, st')"
    by (simp add: stale_store_eq StateStore_set_def Map_get_def valueChanged_def int_toString_def
          nat_toString_digit digit_char_def Let_def)
  have k: "StateStore_set stale_store ''x.y'' (JNum 1) ''app.a'' 3 = Inr (None, stale_store)"
    by (simp add: stale_store_eq StateStore_set_def Map_get_def valueChanged_def)
  have g: "StateStore_get stale_store ''x.y''
             = Some \<lparr> value = JNum 1, owner = ''app.a'', version = 2, stale = True, updatedAt = 2,
                      path = ''x.y'' \<rparr>"
    by (simp add: stale_store_eq StateStore_get_def Map_get_def)
  have n: "\<not> structurally_equal (JNum 1) (JNum 2)"
    by (simp add: structurally_equal_def int_toString_def nat_toString_digit digit_char_def)
  from set_then_get [OF h] g n have 1:
    "\<exists>e. StateStore_get st' ''x.y'' = Some e \<and> structurally_equal (value e) (JNum 2) \<and>
         owner e = ''app.a'' \<and> \<not> stale e \<and>
         d = Some \<lparr> delta_path = ''x.y'', entry = e, previousVersion = Some 2 \<rparr>"
    by auto
  from set_then_get [OF k] g have 2:
    "\<exists>e. StateStore_get stale_store ''x.y'' = Some e \<and> structurally_equal (value e) (JNum 1) \<and>
         owner e = ''app.a'' \<and> stale e"
    by (auto split: if_splits)
  from 1 h k 2 show ?thesis by auto
qed

section \<open>Properties of the Companion adapter\<close>

lemma ack_status_createAck [simp]:
  "ack_status (createAck uid now src tgt pth cmdId st res err corr sq) = Some st"
  by (simp add: ack_status_def createAck_def)

lemma ack_error_code_createAck [simp]:
  "ack_error_code (createAck uid now src tgt pth cmdId st res err corr sq) = map_option fst err"
  by (simp add: ack_error_code_def createAck_def)

lemma sendSatelliteCommand_fields [simp]:
  "router_attached (snd (sendSatelliteCommand a c args)) = router_attached a"
  "adapter_sequenceCounter (snd (sendSatelliteCommand a c args)) = adapter_sequenceCounter a"
  "sent (snd (sendSatelliteCommand a c args)) =
     sent a @ (if ws_open a \<and> \<not> ws_send_throws a then [join '' '' (c # args)] else [])"
  by (simp_all add: sendSatelliteCommand_def Let_def)

lemma sendSatelliteCommand_socket [simp]:
  "router_attached (snd (sendSatelliteCommand (a\<lparr> ws_open := b \<rparr>) c args)) = router_attached a"
  "adapter_sequenceCounter (snd (sendSatelliteCommand (a\<lparr> ws_open := b \<rparr>) c args))
     = adapter_sequenceCounter a"
  by (simp_all add: sendSatelliteCommand_def Let_def)

lemma sendCompletedAck_snd:
  "snd (sendCompletedAck a m res uid now) =
     (if router_attached a
      then [createAck uid now adapter_namespace (source m) (msg_path m) (msg_id m) Completed res
              None (correlationId m) (adapter_sequenceCounter a)]
      else [])"
  by (simp add: sendCompletedAck_def)

lemma sendErrorResponse_snd:
  "snd (sendErrorResponse a m code text uid now) =
     (if router_attached a
      then [createAck uid now adapter_namespace (source m) (msg_path m) (msg_id m) Failed None
              (Some (code, text)) (correlationId m) (adapter_sequenceCounter a)]
      else [])"
  by (simp add: sendErrorResponse_def)

lemma response_sent [simp]:
  "sent (fst (sendCompletedAck a m res uid now)) = sent a"
  "sent (fst (sendErrorResponse a m code text uid now)) = sent a"
  by (simp_all add: sendCompletedAck_def sendErrorResponse_def)

lemmas handler_defs =
  handlePressCommand_def handleReleaseCommand_def handleRotateCommand_def
  handleSetVariableCommand_def handleGetVariableCommand_def handleClearKeysCommand_def

lemma response_socket [simp]:
  "snd (sendCompletedAck (a\<lparr> ws_open := b \<rparr>) m res uid now) = snd (sendCompletedAck a m res uid now)"
  "snd (sendErrorResponse (a\<lparr> ws_open := b \<rparr>) m code text uid now)
     = snd (sendErrorResponse a m code text uid now)"
  by (simp_all add: sendCompletedAck_def sendErrorResponse_def)

lemma page_bank_text_socket [simp]:
  "page_bank_text (a\<lparr> ws_open := b \<rparr>) pg bk = page_bank_text a pg bk"
  by (simp add: page_bank_text_def split: jvalue.splits)

lemma key_text_socket [simp]:
  "press_key_text (a\<lparr> ws_open := b \<rparr>) ps = press_key_text a ps"
  by (simp add: press_key_text_def split: option.splits)

text \<open>
  What a completed command leaves behind: one completed ack, and its frame if the socket
  took it; and what a refused command leaves behind: one failed ack and no frame.
\<close>

lemma completed_after_send:
  assumes "router_attached a"
    and "sendCompletedAck ((snd (sendSatelliteCommand a c args))\<lparr> commandsSent := n \<rparr>) m res uid now
           = (a', acks)"
  shows "acks = [createAck uid now adapter_namespace (source m) (msg_path m) (msg_id m)
                   Completed res None (correlationId m) (adapter_sequenceCounter a)]"
    and "sent a' = sent a @ (if ws_open a \<and> \<not> ws_send_throws a then [join '' '' (c # args)] else [])"
  using assms by (auto simp: sendCompletedAck_def)

lemma failed_response:
  assumes "router_attached a"
  shows "sendErrorResponse a m code text uid now
           = (a\<lparr> commandsFailed := commandsFailed a + 1,
                 adapter_sequenceCounter := adapter_sequenceCounter a + 1 \<rparr>,
              [createAck uid now adapter_namespace (source m) (msg_path m) (msg_id m)
                 Failed None (Some (code, text)) (correlationId m) (adapter_sequenceCounter a)])"
  using assms by (simp add: sendErrorResponse_def)

lemma missing_press:
  "params_missing ''press'' ps \<longleftrightarrow> press_key_text a ps = None"
  "params_missing ''release'' ps \<longleftrightarrow> press_key_text a ps = None"
  by (auto simp: params_missing_def press_key_text_def split: option.splits)

lemma press_verdict:
  assumes "router_attached a" and "handlePressCommand a m ps uid now = Inr (a', acks)"
  shows "\<exists>ack. acks = [ack] \<and>
           (if params_missing ''press'' ps
              then ack_status ack = Some Failed \<and> ack_error_code ack = Some INVALID_MESSAGE \<and>
                   sent a' = sent a
            else ack_status ack = Some Completed \<and>
                 (\<exists>args. sent a' = sent a @ (if ws_open a \<and> \<not> ws_send_throws a
                                              then [join '' '' (''KEY-PRESS'' # args)] else [])))"
proof (cases "press_key_text a ps")
  case None
  then show ?thesis
    using assms by (auto simp: handlePressCommand_def missing_press [of ps a] failed_response)
next
  case (Some r)
  show ?thesis
  proof (cases r)
    case (Inl e)
    with Some assms(2) show ?thesis by (simp add: handlePressCommand_def)
  next
    case (Inr k)
    with Some assms(2) have
      "sendCompletedAck ((snd (sendSatelliteCommand a ''KEY-PRESS'' [deviceId a, k, ''PRESSED'']))
         \<lparr> commandsSent := commandsSent (snd (sendSatelliteCommand a ''KEY-PRESS'' [deviceId a, k, ''PRESSED''])) + 1 \<rparr>)
         m None uid now = (a', acks)"
      by (simp add: handlePressCommand_def case_prod_beta Let_def)
    from completed_after_send [OF assms(1) this] Some show ?thesis
      by (auto simp: missing_press [of ps a] simp del: join.simps)
  qed
qed

lemma release_verdict:
  assumes "router_attached a" and "handleReleaseCommand a m ps uid now = Inr (a', acks)"
  shows "\<exists>ack. acks = [ack] \<and>
           (if params_missing ''release'' ps
              then ack_status ack = Some Failed \<and> ack_error_code ack = Some INVALID_MESSAGE \<and>
                   sent a' = sent a
            else ack_status ack = Some Completed \<and>
                 (\<exists>args. sent a' = sent a @ (if ws_open a \<and> \<not> ws_send_throws a
                                              then [join '' '' (''KEY-PRESS'' # args)] else [])))"
proof (cases "press_key_text a ps")
  case None
  then show ?thesis
    using assms by (auto simp: handleReleaseCommand_def missing_press [of ps a] failed_response)
next
  case (Some r)
  show ?thesis
  proof (cases r)
    case (Inl e)
    with Some assms(2) show ?thesis by (simp add: handleReleaseCommand_def)
  next
    case (Inr k)
    with Some assms(2) have
      "sendCompletedAck ((snd (sendSatelliteCommand a ''KEY-PRESS'' [deviceId a, k, ''RELEASED'']))
         \<lparr> commandsSent := commandsSent (snd (sendSatelliteCommand a ''KEY-PRESS'' [deviceId a, k, ''RELEASED''])) + 1 \<rparr>)
         m None uid now = (a', acks)"
      by (simp add: handleReleaseCommand_def case_prod_beta Let_def)
    from completed_after_send [OF assms(1) this] Some show ?thesis
      by (auto simp: missing_press [of ps a] simp del: join.simps)
  qed
qed

lemma rotate_verdict:
  assumes "router_attached a" and "handleRotateCommand a m ps uid now = Inr (a', acks)"
  shows "\<exists>ack. acks = [ack] \<and>
           (if \<not> supportsRotation (capabilities a)
              then ack_status ack = Some Failed \<and> ack_error_code ack = Some ADAPTER_ERROR \<and>
                   sent a' = sent a
            else if params_missing ''rotate'' ps
              then ack_status ack = Some Failed \<and> ack_error_code ack = Some INVALID_MESSAGE \<and>
                   sent a' = sent a
            else ack_status ack = Some Completed \<and>
                 (\<exists>args. sent a' = sent a @ (if ws_open a \<and> \<not> ws_send_throws a
                                              then [join '' '' (''KEY-ROTATE'' # args)] else [])))"
proof -
  let ?missing = "falsy (optional_chain ps (member ''keyIndex''))
                  \<or> falsy (optional_chain ps (member ''direction''))"
  have pm: "params_missing ''rotate'' ps \<longleftrightarrow> ?missing" by (simp add: params_missing_def)
  consider "\<not> supportsRotation (capabilities a)"
    | "supportsRotation (capabilities a)" "?missing"
    | "supportsRotation (capabilities a)" "\<not> ?missing" by fastforce
  then show ?thesis
  proof cases
    case 1
    then show ?thesis
      using assms by (auto simp: handleRotateCommand_def failed_response)
  next
    case 2
    then show ?thesis
      using assms by (auto simp: handleRotateCommand_def pm failed_response)
  next
    case 3
    then obtain k where
      "sendCompletedAck ((snd (sendSatelliteCommand a ''KEY-ROTATE''
           [deviceId a, k, if member ''direction'' (the ps) = Some (JStr ''left'') then ''-1'' else ''1'']))
         \<lparr> commandsSent := commandsSent (snd (sendSatelliteCommand a ''KEY-ROTATE''
           [deviceId a, k, if member ''direction'' (the ps) = Some (JStr ''left'') then ''-1'' else ''1''])) + 1 \<rparr>)
         m None uid now = (a', acks)"
      using assms(2)
      by (auto simp: handleRotateCommand_def case_prod_beta Let_def split: sum.splits)
    from completed_after_send [OF assms(1) this] 3 show ?thesis
      by (auto simp: pm simp del: join.simps)
  qed
qed

lemma setVariable_verdict:
  assumes "router_attached a" and "handleSetVariableCommand a m ps uid now = Inr (a', acks)"
  shows "\<exists>ack. acks = [ack] \<and>
           (if \<not> supportsVariableWrite (capabilities a)
              then ack_status ack = Some Failed \<and> ack_error_code ack = Some ADAPTER_ERROR \<and>
                   sent a' = sent a
            else if params_missing ''setVariable'' ps
              then ack_status ack = Some Failed \<and> ack_error_code ack = Some INVALID_MESSAGE \<and>
                   sent a' = sent a
            else ack_status ack = Some Completed \<and>
                 (\<exists>args. sent a' = sent a @ (if ws_open a \<and> \<not> ws_send_throws a
                                              then [join '' '' (''VARIABLE-VALUE'' # args)] else [])))"
proof -
  let ?missing = "falsy (optional_chain ps (member ''name''))
                  \<or> optional_chain ps (member ''value'') = None"
  have pm: "params_missing ''setVariable'' ps \<longleftrightarrow> ?missing" by (simp add: params_missing_def)
  consider "\<not> supportsVariableWrite (capabilities a)"
    | "supportsVariableWrite (capabilities a)" "?missing"
    | "supportsVariableWrite (capabilities a)" "\<not> ?missing" by fastforce
  then show ?thesis
  proof cases
    case 1
    then show ?thesis
      using assms by (auto simp: handleSetVariableCommand_def failed_response)
  next
    case 2
    then show ?thesis
      using assms by (auto simp: handleSetVariableCommand_def pm failed_response)
  next
    case 3
    then obtain x where
      "sendCompletedAck ((snd (sendSatelliteCommand a ''VARIABLE-VALUE'' [x]))
         \<lparr> commandsSent := commandsSent (snd (sendSatelliteCommand a ''VARIABLE-VALUE'' [x])) + 1 \<rparr>)
         m None uid now = (a', acks)"
      using assms(2)
      by (auto simp: handleSetVariableCommand_def case_prod_beta Let_def split: sum.splits)
    from completed_after_send [OF assms(1) this] 3 show ?thesis
      by (auto simp: pm simp del: join.simps)
  qed
qed

lemma getVariable_verdict:
  assumes "router_attached a" and "handleGetVariableCommand a m ps uid now = Inr (a', acks)"
  shows "\<exists>ack. acks = [ack] \<and>
           (if params_missing ''getVariable'' ps
              then ack_status ack = Some Failed \<and> ack_error_code ack = Some INVALID_MESSAGE \<and>
                   sent a' = sent a
            else ack_status ack = Some Completed \<and> sent a' = sent a)"
  using assms
  by (auto simp: handleGetVariableCommand_def params_missing_def sendCompletedAck_def Let_def
        failed_response split: if_splits)

lemma clearKeys_verdict:
  assumes "router_attached a" and "handleClearKeysCommand a m uid now = Inr (a', acks)"
  shows "\<exists>ack. acks = [ack] \<and> ack_status ack = Some Completed \<and>
           (\<exists>args. sent a' = sent a @ (if ws_open a \<and> \<not> ws_send_throws a
                                        then [join '' '' (''KEYS-CLEAR'' # args)] else []))"
proof -
  have "acks = [createAck uid now adapter_namespace (source m) (msg_path m) (msg_id m)
                  Completed None None (correlationId m) (adapter_sequenceCounter a)]"
    and "sent a' = sent a @ (if ws_open a \<and> \<not> ws_send_throws a
                             then [join '' '' (''KEYS-CLEAR'' # [deviceId a])] else [])"
    using assms
    by (auto simp: handleClearKeysCommand_def sendCompletedAck_def case_prod_beta Let_def
          simp del: join.simps)
  then show ?thesis
    by (auto simp: ack_status_def createAck_def simp del: join.simps intro!: exI [of _ "[deviceId a]"])
qed

lemma unknown_verdict:
  assumes "router_attached a"
    and "sendErrorResponse a m ADAPTER_ERROR text uid now = (a', acks)"
  shows "\<exists>ack. acks = [ack] \<and> ack_status ack = Some Failed \<and>
               ack_error_code ack = Some ADAPTER_ERROR \<and> sent a' = sent a"
  using assms by (auto simp: failed_response)

text \<open>Whether and how a command is answered does not depend on the socket.\<close>

lemma handler_socket:
  "map_sum id snd (handlePressCommand (a\<lparr> ws_open := b \<rparr>) m ps uid now)
     = map_sum id snd (handlePressCommand a m ps uid now)"
  "map_sum id snd (handleReleaseCommand (a\<lparr> ws_open := b \<rparr>) m ps uid now)
     = map_sum id snd (handleReleaseCommand a m ps uid now)"
  "map_sum id snd (handleRotateCommand (a\<lparr> ws_open := b \<rparr>) m ps uid now)
     = map_sum id snd (handleRotateCommand a m ps uid now)"
  "map_sum id snd (handleSetVariableCommand (a\<lparr> ws_open := b \<rparr>) m ps uid now)
     = map_sum id snd (handleSetVariableCommand a m ps uid now)"
  "map_sum id snd (handleClearKeysCommand (a\<lparr> ws_open := b \<rparr>) m uid now)
     = map_sum id snd (handleClearKeysCommand a m uid now)"
  by (simp_all add: handler_defs sendCompletedAck_def sendErrorResponse_def case_prod_beta Let_def
        split: option.splits sum.splits)

lemma getVariable_socket:
  "map_sum id snd (handleGetVariableCommand (a\<lparr> ws_open := b \<rparr>) m ps uid now)
     = map_sum id snd (handleGetVariableCommand a m ps uid now)"
  by (simp add: handleGetVariableCommand_def sendCompletedAck_def sendErrorResponse_def Let_def
        split: jvalue.splits)

lemma acks_ignore_socket:
  "map_sum id snd (handleBridgeMessage (a\<lparr> ws_open := b \<rparr>) m uid now)
     = map_sum id snd (handleBridgeMessage a m uid now)"
proof (cases "payload m")
  case (CommandPayload action params)
  then show ?thesis
    by (simp add: handleBridgeMessage_def handler_socket getVariable_socket sendErrorResponse_def)
qed (simp_all add: handleBridgeMessage_def)

lemma same_acks_any_socket:
  assumes "handleBridgeMessage a m uid now = Inr (a', acks)"
  shows "\<exists>a''. handleBridgeMessage (a\<lparr> ws_open := b \<rparr>) m uid now = Inr (a'', acks)"
  using acks_ignore_socket [where a = a and b = b and m = m and uid = uid and now = now] assms
  by (cases "handleBridgeMessage (a\<lparr> ws_open := b \<rparr>) m uid now") auto

lemma action_table:
  "known_action ''press''" "known_action ''release''" "known_action ''rotate''"
  "known_action ''setVariable''" "known_action ''getVariable''" "known_action ''clearKeys''"
  "\<not> capability_missing a ''press''" "\<not> capability_missing a ''release''"
  "\<not> capability_missing a ''getVariable''" "\<not> capability_missing a ''clearKeys''"
  "capability_missing a ''rotate'' \<longleftrightarrow> \<not> supportsRotation (capabilities a)"
  "capability_missing a ''setVariable'' \<longleftrightarrow> \<not> supportsVariableWrite (capabilities a)"
  "wire_command ''press'' = Some ''KEY-PRESS''" "wire_command ''release'' = Some ''KEY-PRESS''"
  "wire_command ''rotate'' = Some ''KEY-ROTATE''"
  "wire_command ''setVariable'' = Some ''VARIABLE-VALUE''"
  "wire_command ''getVariable'' = None" "wire_command ''clearKeys'' = Some ''KEYS-CLEAR''"
  "\<not> params_missing ''clearKeys'' ps"
  by (simp_all add: known_action_def capability_missing_def wire_command_def params_missing_def)

lemma companion_acks_aux:
  assumes "router_attached a" and "payload m = CommandPayload action params"
    and "handleBridgeMessage a m uid now = Inr (a', acks)"
  shows "\<exists>ack. acks = [ack] \<and>
           (if \<not> known_action action \<or> capability_missing a action
              then ack_status ack = Some Failed \<and> ack_error_code ack = Some ADAPTER_ERROR \<and>
                   sent a' = sent a
            else if params_missing action params
              then ack_status ack = Some Failed \<and> ack_error_code ack = Some INVALID_MESSAGE \<and>
                   sent a' = sent a
            else ack_status ack = Some Completed \<and>
                 (\<exists>args. sent a' =
                    sent a @ (case wire_command action of
                                Some c \<Rightarrow> if ws_open a \<and> \<not> ws_send_throws a
                                          then [join '' '' (c # args)] else []
                              | None \<Rightarrow> [])))"
proof -
  consider "action = ''press''" | "action = ''release''" | "action = ''rotate''"
    | "action = ''setVariable''" | "action = ''getVariable''" | "action = ''clearKeys''"
    | "\<not> known_action action"
    by (auto simp: known_action_def)
  then show ?thesis
  proof cases
    case 1
    with assms(2,3) have "handlePressCommand a m params uid now = Inr (a', acks)"
      by (simp add: handleBridgeMessage_def)
    from press_verdict [OF assms(1) this] show ?thesis
      unfolding 1 by (simp only: action_table simp_thms if_False option.case)
  next
    case 2
    with assms(2,3) have "handleReleaseCommand a m params uid now = Inr (a', acks)"
      by (simp add: handleBridgeMessage_def)
    from release_verdict [OF assms(1) this] show ?thesis
      unfolding 2 by (simp only: action_table simp_thms if_False option.case)
  next
    case 3
    with assms(2,3) have "handleRotateCommand a m params uid now = Inr (a', acks)"
      by (simp add: handleBridgeMessage_def)
    from rotate_verdict [OF assms(1) this] show ?thesis
      unfolding 3 by (simp only: action_table simp_thms if_False option.case)
  next
    case 4
    with assms(2,3) have "handleSetVariableCommand a m params uid now = Inr (a', acks)"
      by (simp add: handleBridgeMessage_def)
    from setVariable_verdict [OF assms(1) this] show ?thesis
      unfolding 4 by (simp only: action_table simp_thms if_False option.case)
  next
    case 5
    with assms(2,3) have "handleGetVariableCommand a m params uid now = Inr (a', acks)"
      by (simp add: handleBridgeMessage_def)
    from getVariable_verdict [OF assms(1) this] show ?thesis
      unfolding 5 by (simp only: action_table simp_thms if_False option.case append_Nil2)
  next
    case 6
    with assms(2,3) have "handleClearKeysCommand a m uid now = Inr (a', acks)"
      by (simp add: handleBridgeMessage_def)
    from clearKeys_verdict [OF assms(1) this] show ?thesis
      unfolding 6 by (simp only: action_table simp_thms if_False option.case)
  next
    case 7
    with assms(2,3) have
      "sendErrorResponse a m ADAPTER_ERROR (''Unknown action: '' @ action) uid now = (a', acks)"
      by (simp add: handleBridgeMessage_def known_action_def)
    from unknown_verdict [OF assms(1) this] 7 show ?thesis
      by (simp only: simp_thms if_True)
  qed
qed

text \<open>
  Parameters that the handler cannot turn into text make it raise before anything is
  sent or acked: a press whose key index is \<^verbatim>\<open>null\<close> is one.
\<close>

lemma null_keyIndex_raises:
  assumes "payload m = CommandPayload ''press'' (Some p)" and "member ''keyIndex'' p = Some JNull"
  shows "handleBridgeMessage a m uid now = Inl null_toString_error"
  using assms
  by (simp add: handleBridgeMessage_def handlePressCommand_def press_key_text_def
        optional_chain_def toString_method_def)

lemma press_5_closed:
  "handleBridgeMessage (example_adapter False)
       (example_command ''c1'' ''press'' (Some [(''keyIndex'', JNum 5)])) ''u1'' 2000
     = Inr ((example_adapter False)\<lparr> commandsSent := 1, adapter_sequenceCounter := 1 \<rparr>,
            [createAck ''u1'' 2000 ''companion.satellite'' ''app.x'' ''companion.page.1.bank.0''
               ''c1'' Completed None None None 0])"
  by (simp add: handleBridgeMessage_def example_command_def example_adapter_def
        handlePressCommand_def press_key_text_def optional_chain_def member_def Map_get_def
        toString_method_def ToString_def sendSatelliteCommand_def sendCompletedAck_def
        adapter_namespace_def)


lemma rotate_zero_aux:
  assumes "router_attached a" and "supportsRotation (capabilities a)"
    and "payload m = CommandPayload ''rotate'' (Some p)"
    and "member ''keyIndex'' p = Some (JNum 0)"
  shows "handleBridgeMessage a m uid now =
           Inr (a\<lparr> commandsFailed := commandsFailed a + 1,
                   adapter_sequenceCounter := adapter_sequenceCounter a + 1 \<rparr>,
                [createAck uid now adapter_namespace (source m) (msg_path m) (msg_id m) Failed None
                   (Some (INVALID_MESSAGE, ''Missing keyIndex or direction parameters''))
                   (correlationId m) (adapter_sequenceCounter a)])"
  using assms
  by (simp add: handleBridgeMessage_def handleRotateCommand_def optional_chain_def falsy_def
        failed_response)

lemma press_zero_aux:
  assumes "router_attached a" and "payload m = CommandPayload act (Some p)"
    and "act = ''press'' \<or> act = ''release''" and "member ''keyIndex'' p = Some (JNum 0)"
  shows "\<exists>a'. handleBridgeMessage a m uid now =
                Inr (a', [createAck uid now adapter_namespace (source m) (msg_path m) (msg_id m)
                            Completed None None (correlationId m) (adapter_sequenceCounter a)]) \<and>
              sent a' =
                sent a @ (if ws_open a \<and> \<not> ws_send_throws a
                          then [''KEY-PRESS '' @ deviceId a @ '' 0 '' @
                                (if act = ''press'' then ''PRESSED'' else ''RELEASED'')]
                          else [])"
proof -
  have k: "press_key_text a (Some p) = Some (Inr ''0'')"
    using assms(4)
    by (simp add: press_key_text_def optional_chain_def toString_method_def ToString_def
          int_toString_0)
  from assms(3) show ?thesis
  proof
    assume "act = ''press''"
    then show ?thesis using assms(1,2) k
      by (simp add: handleBridgeMessage_def handlePressCommand_def sendCompletedAck_def
            case_prod_beta Let_def)
  next
    assume "act = ''release''"
    then show ?thesis using assms(1,2) k
      by (simp add: handleBridgeMessage_def handleReleaseCommand_def sendCompletedAck_def
            case_prod_beta Let_def)
  qed
qed



text \<open>
  Claim C10: with the ROTATION capability present, a rotate command whose parameters are
  key index 0 and a direction is answered with a failed ack carrying INVALID_MESSAGE
  ("Missing keyIndex or direction parameters") and writes no frame, because the presence
  check is a truthiness test; a press or release with key index 0 is accepted, acked
  completed, and its KEY-PRESS frame for key 0 is written when the socket is open.
\<close>

theorem rotate_keyIndex_zero_rejected:
  assumes "router_attached a" and "supportsRotation (capabilities a)"
    and "payload m = CommandPayload ''rotate'' (Some p)"
    and "member ''keyIndex'' p = Some (JNum 0)" and "member ''direction'' p = Some (JStr d)"
    and "payload m' = CommandPayload act (Some p')"
    and "act = ''press'' \<or> act = ''release''" and "member ''keyIndex'' p' = Some (JNum 0)"
  shows "\<exists>a1 a2. handleBridgeMessage a m uid now =
                   Inr (a1, [createAck uid now adapter_namespace (source m) (msg_path m) (msg_id m)
                               Failed None
                               (Some (INVALID_MESSAGE, ''Missing keyIndex or direction parameters''))
                               (correlationId m) (adapter_sequenceCounter a)]) \<and>
                 sent a1 = sent a \<and>
                 handleBridgeMessage a m' uid now =
                   Inr (a2, [createAck uid now adapter_namespace (source m') (msg_path m') (msg_id m')
                               Completed None None (correlationId m') (adapter_sequenceCounter a)]) \<and>
                 sent a2 =
                   sent a @ (if ws_open a \<and> \<not> ws_send_throws a
                             then [''KEY-PRESS '' @ deviceId a @ '' 0 '' @
                                   (if act = ''press'' then ''PRESSED'' else ''RELEASED'')]
                             else [])"
  using rotate_zero_aux [OF assms(1-4), of uid now] press_zero_aux [OF assms(1) assms(6-8), of uid now]
  by auto

text \<open>
  Witness for C10: on an adapter with ROTATION and an open socket, rotate with key index 0
  and direction left is refused without a frame, while press with key index 0 is
  completed and writes \<^verbatim>\<open>KEY-PRESS dev 0 PRESSED\<close>.
\<close>

theorem rotate_keyIndex_zero_rejected_witness:
  "\<exists>a1 a2 ack1 ack2.
     handleBridgeMessage rotation_adapter
         (example_command ''c1'' ''rotate'' (Some [(''keyIndex'', JNum 0), (''direction'', JStr ''left'')]))
         ''u1'' 2000 = Inr (a1, [ack1]) \<and>
     ack_status ack1 = Some Failed \<and> ack_error_code ack1 = Some INVALID_MESSAGE \<and> sent a1 = [] \<and>
     handleBridgeMessage rotation_adapter
         (example_command ''c2'' ''press'' (Some [(''keyIndex'', JNum 0)])) ''u1'' 2000
       = Inr (a2, [ack2]) \<and>
     ack_status ack2 = Some Completed \<and> sent a2 = [''KEY-PRESS dev 0 PRESSED'']"
proof -
  let ?rotate = "example_command ''c1'' ''rotate'' (Some [(''keyIndex'', JNum 0), (''direction'', JStr ''left'')])"
  let ?press = "example_command ''c2'' ''press'' (Some [(''keyIndex'', JNum 0)])"
  have a: "router_attached rotation_adapter" "supportsRotation (capabilities rotation_adapter)"
    by (simp_all add: rotation_adapter_def example_adapter_def)
  have s: "ws_open rotation_adapter" "\<not> ws_send_throws rotation_adapter"
    "sent rotation_adapter = []" "deviceId rotation_adapter = ''dev''"
    by (simp_all add: rotation_adapter_def example_adapter_def)
  have m: "payload ?rotate = CommandPayload ''rotate'' (Some [(''keyIndex'', JNum 0), (''direction'', JStr ''left'')])"
    "payload ?press = CommandPayload ''press'' (Some [(''keyIndex'', JNum 0)])"
    by (simp_all add: example_command_def)
  have p: "member ''keyIndex'' [(''keyIndex'', JNum 0), (''direction'', JStr ''left'')] = Some (JNum 0)"
    "member ''direction'' [(''keyIndex'', JNum 0), (''direction'', JStr ''left'')] = Some (JStr ''left'')"
    "member ''keyIndex'' [(''keyIndex'', JNum 0)] = Some (JNum 0)"
    by (simp_all add: member_def Map_get_def)
  have "''press'' = ''press'' \<or> ''press'' = ''release''" by simp
  from rotate_keyIndex_zero_rejected [OF a m(1) p(1) p(2) m(2) this p(3), of "''u1''" 2000] s
  show ?thesis by auto
qed

section \<open>Basic facts about the router\<close>

lemma createAck_sel [simp]:
  "payload (createAck uid now src tgt pth cmdId st res err corr sq) = AckPayload st cmdId res err"
  "target (createAck uid now src tgt pth cmdId st res err corr sq) = Some tgt"
  "source (createAck uid now src tgt pth cmdId st res err corr sq) = src"
  by (simp_all add: createAck_def)

lemma createError_sel [simp]:
  "payload (createError uid now src tgt pth code text related corr sq) = ErrorPayload code text related"
  "target (createError uid now src tgt pth code text related corr sq) = tgt"
  "source (createError uid now src tgt pth code text related corr sq) = src"
  by (simp_all add: createError_def)

lemma createState_sel [simp]:
  "payload (createState uid now src pth v stl ownr ver sq)
     = StatePayload v stl (Some (case ownr of Some x \<Rightarrow> x | None \<Rightarrow> src)) ver"
  "msg_path (createState uid now src pth v stl ownr ver sq) = pth"
  by (simp_all add: createState_def)

text \<open>A handler that is given anything but a command hands nothing back to the router.\<close>

lemma handleBridgeMessage_no_command:
  "\<not> isCommandMessage m \<Longrightarrow> handleBridgeMessage a m uid now = Inr (a, [])"
  by (cases "payload m") (simp_all add: handleBridgeMessage_def isCommandMessage_def)

lemma call_handler_deliveries [simp]:
  "deliveries (snd (snd (call_handler w t m now))) = deliveries w @ [(t, m)]"
  by (cases "handler t") (simp_all add: call_handler_def Let_def case_prod_beta split: sum.splits)

lemma call_handler_frame [simp]:
  "targets (snd (snd (call_handler w t m now))) = targets w"
  "stateStore (snd (snd (call_handler w t m now))) = stateStore w"
  "subscriptionManager (snd (snd (call_handler w t m now))) = subscriptionManager w"
  "sequenceCounter (snd (snd (call_handler w t m now))) = sequenceCounter w"
  "enableIdempotency (snd (snd (call_handler w t m now))) = enableIdempotency w"
  "idempotencyTtl (snd (snd (call_handler w t m now))) = idempotencyTtl w"
  "idempotencyCache (snd (snd (call_handler w t m now))) = idempotencyCache w"
  "pendingCommands (snd (snd (call_handler w t m now))) = pendingCommands w"
  by (cases "handler t"; simp add: call_handler_def Let_def case_prod_beta split: sum.splits)+

lemma call_handler_acks_no_command:
  "\<not> isCommandMessage m \<Longrightarrow> fst (snd (call_handler w t m now)) = []"
  by (cases "handler t") (simp_all add: call_handler_def Let_def handleBridgeMessage_no_command)

lemma call_handler_outcome:
  "\<not> isCommandMessage m \<Longrightarrow>
   fst (call_handler w t m now) = (case handler t of FailingHandler e \<Rightarrow> Threw e | _ \<Rightarrow> Returned)"
  by (cases "handler t") (simp_all add: call_handler_def Let_def handleBridgeMessage_no_command)

lemma handleAck_frame [simp]:
  "targets (handleAck w m now) = targets w"
  "stateStore (handleAck w m now) = stateStore w"
  "subscriptionManager (handleAck w m now) = subscriptionManager w"
  "sequenceCounter (handleAck w m now) = sequenceCounter w"
  "enableIdempotency (handleAck w m now) = enableIdempotency w"
  "idempotencyTtl (handleAck w m now) = idempotencyTtl w"
  by (cases "payload m"; simp add: handleAck_def Let_def split: option.splits)+

lemma handleAck_deliveries:
  "deliveries (handleAck w m now) =
     deliveries w @ (case payload m of
                       AckPayload _ _ _ _ \<Rightarrow>
                         (case optional_chain (target m) (Map_get (targets w)) of
                            None \<Rightarrow> [] | Some t \<Rightarrow> [(t, m)])
                     | _ \<Rightarrow> [])"
  by (cases "payload m"; simp add: handleAck_def Let_def split: option.splits)

lemma handleAck_prefix: "prefix (deliveries w) (deliveries (handleAck w m now))"
  by (simp add: handleAck_deliveries)

lemma fold_handleAck_frame [simp]:
  "targets (fold (\<lambda>ack w'. handleAck w' ack now) acks w) = targets w"
  "stateStore (fold (\<lambda>ack w'. handleAck w' ack now) acks w) = stateStore w"
  "subscriptionManager (fold (\<lambda>ack w'. handleAck w' ack now) acks w) = subscriptionManager w"
  "sequenceCounter (fold (\<lambda>ack w'. handleAck w' ack now) acks w) = sequenceCounter w"
  "enableIdempotency (fold (\<lambda>ack w'. handleAck w' ack now) acks w) = enableIdempotency w"
  "idempotencyTtl (fold (\<lambda>ack w'. handleAck w' ack now) acks w) = idempotencyTtl w"
  by (induction acks arbitrary: w; simp)+

lemma fold_handleAck_prefix:
  "prefix (deliveries w) (deliveries (fold (\<lambda>ack w'. handleAck w' ack now) acks w))"
proof (induction acks arbitrary: w)
  case Nil show ?case by simp
next
  case (Cons a acks)
  have "prefix (deliveries w) (deliveries (handleAck w a now))" by (rule handleAck_prefix)
  also have "prefix \<dots> (deliveries (fold (\<lambda>ack w'. handleAck w' ack now) acks (handleAck w a now)))"
    by (rule Cons.IH)
  finally show ?case by simp
qed

lemma invoke_frame [simp]:
  "targets (snd (invoke w t m now)) = targets w"
  "stateStore (snd (invoke w t m now)) = stateStore w"
  "subscriptionManager (snd (invoke w t m now)) = subscriptionManager w"
  "sequenceCounter (snd (invoke w t m now)) = sequenceCounter w"
  "enableIdempotency (snd (invoke w t m now)) = enableIdempotency w"
  "idempotencyTtl (snd (invoke w t m now)) = idempotencyTtl w"
  by (simp_all add: invoke_def case_prod_beta)

lemma invoke_outcome:
  "\<not> isCommandMessage m \<Longrightarrow>
   fst (invoke w t m now) = (case handler t of FailingHandler e \<Rightarrow> Threw e | _ \<Rightarrow> Returned)"
  by (simp add: invoke_def case_prod_beta call_handler_outcome)

lemma invoke_no_command:
  "\<not> isCommandMessage m \<Longrightarrow> snd (invoke w t m now) = snd (snd (call_handler w t m now))"
  by (simp add: invoke_def case_prod_beta call_handler_acks_no_command)

lemma invoke_deliveries_no_command:
  "\<not> isCommandMessage m \<Longrightarrow> deliveries (snd (invoke w t m now)) = deliveries w @ [(t, m)]"
  by (simp add: invoke_no_command)

lemma invoke_deliveries:
  "\<exists>ds. deliveries (snd (invoke w t m now)) = deliveries w @ (t, m) # ds"
proof -
  have "prefix (deliveries (snd (snd (call_handler w t m now)))) (deliveries (snd (invoke w t m now)))"
    using fold_handleAck_prefix [of "snd (snd (call_handler w t m now))" now "fst (snd (call_handler w t m now))"]
    by (simp add: invoke_def case_prod_beta)
  then show ?thesis by (auto simp: prefix_def)
qed

lemma invoke_prefix: "prefix (deliveries w) (deliveries (snd (invoke w t m now)))"
  using invoke_deliveries [of w t m now] by (auto simp: prefix_def)

lemma sendError_frame [simp]:
  "targets (snd (sendError w m code text now)) = targets w"
  "stateStore (snd (sendError w m code text now)) = stateStore w"
  "subscriptionManager (snd (sendError w m code text now)) = subscriptionManager w"
  "enableIdempotency (snd (sendError w m code text now)) = enableIdempotency w"
  "idempotencyTtl (snd (sendError w m code text now)) = idempotencyTtl w"
  by (simp_all add: sendError_def Let_def split: option.splits)

lemma sendError_deliveries:
  "deliveries (snd (sendError w m code text now)) =
     deliveries w @
       (case Map_get (targets w) (source m) of
          None \<Rightarrow> []
        | Some t \<Rightarrow>
            [(t, createError (generateUuidV7 (uuid_counter w)) now ''hub.core'' (Some (source m))
                   (msg_path m) code text (Some (msg_id m)) (correlationId m) (sequenceCounter w))])"
  by (simp add: sendError_def Let_def invoke_deliveries_no_command isCommandMessage_def
        split: option.splits)


section \<open>Ownership conflicts and fan-out\<close>

lemma set_conflict:
  assumes "Map_get (entries st) P = Some e" and "owner e \<noteq> writer"
  shows "StateStore_set st P v writer now = Inl (StateOwnershipError P (owner e) writer)"
  using assms by (simp add: StateStore_set_def)

lemma routeState_conflict:
  assumes "Map_get (entries (stateStore w)) (msg_path m) = Some e" and "owner e \<noteq> source m"
    and "payload m = StatePayload v stl ownr ver"
  shows "stateStore (routeState w m now) = stateStore w"
    and "deliveries (routeState w m now) =
           deliveries w @
             (case Map_get (targets w) (source m) of
                None \<Rightarrow> []
              | Some t \<Rightarrow>
                  [(t, createError (generateUuidV7 (uuid_counter w)) now ''hub.core'' (Some (source m))
                         (msg_path m) STATE_CONFLICT
                         (ownership_message (StateOwnershipError (msg_path m) (owner e) (source m)))
                         (Some (msg_id m)) (correlationId m) (sequenceCounter w))])"
  using assms by (simp_all add: routeState_def set_conflict sendError_deliveries)

lemma deliver_to_clients_frame [simp]:
  "targets (deliver_to_clients w cs x m now) = targets w"
  "stateStore (deliver_to_clients w cs x m now) = stateStore w"
  "subscriptionManager (deliver_to_clients w cs x m now) = subscriptionManager w"
  "enableIdempotency (deliver_to_clients w cs x m now) = enableIdempotency w"
  "idempotencyTtl (deliver_to_clients w cs x m now) = idempotencyTtl w"
  by (induction w cs x m now rule: deliver_to_clients.induct; simp split: option.splits)+

lemma deliver_to_clients_deliveries:
  assumes "\<not> isCommandMessage m"
  shows "deliveries (deliver_to_clients w cs x m now) =
           deliveries w @
             map (\<lambda>t. (t, m))
               (filter (\<lambda>t. namespace t \<noteq> x) (List.map_filter (findTargetById (targets w)) cs))"
  using assms
proof (induction w cs x m now rule: deliver_to_clients.induct)
  case (1 w excluded m now)
  show ?case by (simp add: List.map_filter_simps)
next
  case (2 w cid rest excluded m now)
  show ?case
  proof (cases "findTargetById (targets w) cid")
    case None
    with 2 show ?thesis by (simp add: List.map_filter_simps)
  next
    case (Some t)
    with 2 show ?thesis
      by (simp add: List.map_filter_simps invoke_deliveries_no_command)
  qed
qed

lemma fanout_skips_origin:
  assumes "payload m = EventPayload ev dat"
  shows "\<exists>ds. deliveries (routeEvent w m now) = deliveries w @ ds \<and>
              (\<forall>d \<in> set ds. namespace (fst d) \<noteq> source m \<and> snd d = m)"
  using assms by (auto simp: routeEvent_def deliver_to_clients_deliveries isCommandMessage_def)

lemma entryToMessage_frame [simp]:
  "targets (snd (entryToMessage w p e now)) = targets w"
  "subscriptionManager (snd (entryToMessage w p e now)) = subscriptionManager w"
  "deliveries (snd (entryToMessage w p e now)) = deliveries w"
  "entries (stateStore (snd (entryToMessage w p e now))) = entries (stateStore w)"
  "globalVersion (stateStore (snd (entryToMessage w p e now))) = globalVersion (stateStore w)"
  "enableIdempotency (snd (entryToMessage w p e now)) = enableIdempotency w"
  "idempotencyTtl (snd (entryToMessage w p e now)) = idempotencyTtl w"
  by (simp_all add: entryToMessage_def)

lemma entryToMessage_state: "\<not> isCommandMessage (fst (entryToMessage w p e now))"
  by (simp add: entryToMessage_def isCommandMessage_def)

lemma handleStateDelta_deliveries:
  "deliveries (handleStateDelta w delta now) =
     deliveries w @
       map (\<lambda>t. (t, fst (entryToMessage w (delta_path delta) (entry delta) now)))
         (filter (\<lambda>t. namespace t \<noteq> owner (entry delta))
            (List.map_filter (findTargetById (targets w))
               (getSubscribedClients (subscriptionManager w) (delta_path delta) (Some KindState))))"
  by (simp add: handleStateDelta_def case_prod_beta deliver_to_clients_deliveries entryToMessage_state)


section \<open>Target resolution and command dispatch\<close>

lemma first_registered_Cons:
  "first_registered tg (c # cs) = (case Map_get tg c of Some t \<Rightarrow> Some t | None \<Rightarrow> first_registered tg cs)"
  by (simp add: first_registered_def List.map_filter_simps split: option.splits)

lemma first_registered_Nil: "first_registered tg [] = None"
  by (simp add: first_registered_def List.map_filter_simps)

lemma findTarget_loop_order:
  "findTarget_loop tg parts =
     first_registered tg (map (\<lambda>k. join ''.'' (take k parts)) (rev [1 ..< length parts]))"
proof (induction tg parts rule: findTarget_loop.induct)
  case (1 tg parts)
  show ?case
  proof (cases "length parts > 1")
    case False
    then show ?thesis by (subst findTarget_loop.simps) (simp add: first_registered_Nil)
  next
    case True
    then have n: "[1 ..< length parts] = [1 ..< length parts - 1] @ [length parts - 1]"
      by (metis Suc_diff_1 less_imp_Suc_add less_or_eq_imp_le upt_Suc_append zero_less_Suc
          One_nat_def Suc_pred less_Suc_eq_le not_less_eq plus_1_eq_Suc)
    have b: "take (length parts - 1) parts = butlast parts"
      by (simp add: butlast_conv_take)
    have t: "take k (butlast parts) = take k parts" if "k \<in> set [1 ..< length parts - 1]" for k
      using that by (intro take_butlast) auto
    have e: "map (\<lambda>k. join ''.'' (take k parts)) (rev [1 ..< length parts])
           = join ''.'' (butlast parts)
             # map (\<lambda>k. join ''.'' (take k (butlast parts))) (rev [1 ..< length (butlast parts)])"
      using t by (subst n) (simp add: b del: One_nat_def)
    show ?thesis
    proof (cases "Map_get tg (join ''.'' (butlast parts))")
      case None
      with True 1 [OF True None] show ?thesis
        by (subst findTarget_loop.simps) (simp add: e first_registered_Cons del: One_nat_def)
    next
      case (Some x)
      with True show ?thesis
        by (subst findTarget_loop.simps) (simp add: e first_registered_Cons del: One_nat_def)
    qed
  qed
qed

lemma findTarget_order: "findTarget tg ns = first_registered tg (resolution_order ns)"
  by (simp add: findTarget_def resolution_order_def first_registered_Cons findTarget_loop_order
        split: option.splits)


lemma invoke_grows:
  "prefix xs (deliveries w) \<Longrightarrow> prefix xs (deliveries (snd (invoke w t m now)))"
  by (erule prefix_order.trans) (rule invoke_prefix)

lemma sendError_prefix: "prefix (deliveries w) (deliveries (snd (sendError w m code text now)))"
  by (simp add: sendError_deliveries)

lemma sendError_grows:
  "prefix xs (deliveries w) \<Longrightarrow> prefix xs (deliveries (snd (sendError w m code text now)))"
  by (erule prefix_order.trans) (rule sendError_prefix)

lemma mem_new_deliveries_grows:
  assumes "x \<in> set (new_deliveries w w1)" and "prefix (deliveries w1) (deliveries w2)"
  shows "x \<in> set (new_deliveries w w2)"
proof -
  from assms(2) obtain zs where "deliveries w2 = deliveries w1 @ zs" by (auto simp: prefix_def)
  with assms(1) show ?thesis by (auto simp: new_deliveries_def)
qed

lemma invoke_mem:
  assumes "prefix (deliveries w) (deliveries w2)"
  shows "(t, m) \<in> set (new_deliveries w (snd (invoke w2 t m now)))"
proof -
  from assms obtain xs where xs: "deliveries w2 = deliveries w @ xs" by (auto simp: prefix_def)
  obtain ds where "deliveries (snd (invoke w2 t m now)) = deliveries w2 @ (t, m) # ds"
    using invoke_deliveries by blast
  with xs show ?thesis by (simp add: new_deliveries_def)
qed

lemma routeCommand_miss:
  assumes "\<not> cache_hit w m"
  shows "(if enableIdempotency w \<and> \<not> falsy_string (idempotencyKey m)
          then Map_get (idempotencyCache w) (the (idempotencyKey m)) else None) = None"
  using assms by (auto simp: cache_hit_def)

lemma routeCommand_unknown:
  assumes "\<not> cache_hit w m" and "target m = Some ns" and "findTarget (targets w) ns = None"
  shows "routeCommand w m now = snd (sendError w m UNKNOWN_TARGET (''Unknown target: '' @ ns) now)"
  using assms(2,3) by (simp add: routeCommand_def routeCommand_miss [OF assms(1)])

lemma routeCommand_prefix: "prefix (deliveries w) (deliveries (routeCommand w m now))"
  by (auto simp: routeCommand_def Let_def case_prod_beta
        split: option.splits outcome.splits prod.splits
        intro!: invoke_grows sendError_grows invoke_prefix sendError_prefix)

lemma routeCommand_dispatch:
  assumes miss: "\<not> cache_hit w m" and tgt: "target m = Some ns"
    and found: "findTarget (targets w) ns = Some t"
    and ok: "\<And>s e. Map_get (targets w) (source m) = Some s \<Longrightarrow> handler s \<noteq> FailingHandler e"
  shows "(t, m) \<in> set (new_deliveries w (routeCommand w m now))"
proof -
  define receivedAck where "receivedAck =
     createAck (generateUuidV7 (uuid_counter w)) now ''hub.core'' (source m) (msg_path m)
       (msg_id m) Received None None (correlationId m) (sequenceCounter w)"
  define w1 where "w1 = w\<lparr> sequenceCounter := sequenceCounter w + 1, uuid_counter := uuid_counter w + 1 \<rparr>"
  define r where "r = (case Map_get (targets w1) (source m) of
                         None \<Rightarrow> (Returned, w1)
                       | Some sourceTarget \<Rightarrow> invoke w1 sourceTarget receivedAck now)"
  define r2 where "r2 = invoke (snd r) t m now"
  define final where "final =
     (case fst r2 of
        Returned \<Rightarrow>
          if enableIdempotency (snd r2) \<and> \<not> falsy_string (idempotencyKey m)
          then (snd r2)\<lparr> idempotencyCache :=
                  Map_set (idempotencyCache (snd r2)) (the (idempotencyKey m))
                    \<lparr> result = None, cached_at = now \<rparr> \<rparr>
          else snd r2
      | Threw e \<Rightarrow> snd (sendError (snd r2) m ADAPTER_ERROR e now))"
  have nc: "\<not> isCommandMessage receivedAck" by (simp add: receivedAck_def isCommandMessage_def)
  have r_ok: "fst r = Returned"
    using ok by (auto simp: r_def w1_def invoke_outcome [OF nc] split: option.splits handler.splits)
  have r_pre: "prefix (deliveries w) (deliveries (snd r))"
    using invoke_prefix [of w1 _ receivedAck now]
    by (auto simp: r_def w1_def split: option.splits)
  have eq: "routeCommand w m now = final"
  proof (cases "Map_get (targets w) (source m)")
    case None
    then have "r = (Returned, w1)" by (simp add: r_def w1_def)
    then show ?thesis
      using tgt found None
      by (simp add: routeCommand_def routeCommand_miss [OF miss] Let_def case_prod_beta
            final_def r2_def w1_def receivedAck_def split: outcome.splits)
  next
    case (Some s)
    then have rs: "r = invoke w1 s receivedAck now" by (simp add: r_def w1_def)
    then have "fst (invoke w1 s receivedAck now) = Returned" using r_ok by simp
    then show ?thesis
      using tgt found Some
      by (simp add: routeCommand_def routeCommand_miss [OF miss] Let_def case_prod_beta
            final_def r2_def rs w1_def receivedAck_def split: outcome.splits)
  qed
  have "prefix (deliveries (snd r2)) (deliveries final)"
    by (auto simp: final_def sendError_prefix split: outcome.splits)
  moreover have "(t, m) \<in> set (new_deliveries w (snd r2))"
    unfolding r2_def by (rule invoke_mem [OF r_pre])
  ultimately show ?thesis
    unfolding eq by (rule mem_new_deliveries_grows [rotated])
qed

lemma routeCommand_unknown_deliveries:
  assumes "\<not> cache_hit w m" and "target m = Some ns" and "findTarget (targets w) ns = None"
  shows "new_deliveries w (routeCommand w m now) =
           (case Map_get (targets w) (source m) of
              None \<Rightarrow> []
            | Some s \<Rightarrow>
                [(s, createError (generateUuidV7 (uuid_counter w)) now ''hub.core'' (Some (source m))
                       (msg_path m) UNKNOWN_TARGET (''Unknown target: '' @ ns) (Some (msg_id m))
                       (correlationId m) (sequenceCounter w))])"
  by (simp add: routeCommand_unknown [OF assms] sendError_deliveries new_deliveries_def
        split: option.splits)

lemma command_not_dispatched:
  assumes "\<not> cache_hit w m" and "target m = Some ns" and "findTarget (targets w) ns = None"
    and "isCommandMessage m"
  shows "m \<notin> snd ` set (new_deliveries w (routeCommand w m now))"
proof
  assume a: "m \<in> snd ` set (new_deliveries w (routeCommand w m now))"
  have "\<forall>d \<in> set (new_deliveries w (routeCommand w m now)).
          payload (snd d) = ErrorPayload UNKNOWN_TARGET (''Unknown target: '' @ ns) (Some (msg_id m))"
    by (simp add: routeCommand_unknown_deliveries [OF assms(1-3)] split: option.splits)
  with a have "payload m = ErrorPayload UNKNOWN_TARGET (''Unknown target: '' @ ns) (Some (msg_id m))"
    by auto
  with assms(4) show False by (simp add: isCommandMessage_def)
qed


section \<open>The log of handler calls only grows\<close>

lemma deliver_to_clients_prefix:
  "prefix (deliveries w) (deliveries (deliver_to_clients w cs x m now))"
proof (induction w cs x m now rule: deliver_to_clients.induct)
  case (1 w excluded m now)
  show ?case by simp
next
  case (2 w cid rest excluded m now)
  show ?case
  proof (cases "findTargetById (targets w) cid")
    case None
    with 2 show ?thesis by simp
  next
    case (Some t)
    show ?thesis
    proof (cases "namespace t \<noteq> excluded")
      case True
      have "prefix (deliveries w) (deliveries (snd (invoke w t m now)))" by (rule invoke_prefix)
      also have "prefix \<dots> (deliveries (deliver_to_clients (snd (invoke w t m now)) rest excluded m now))"
        using 2(2) [OF Some True] .
      finally show ?thesis using Some True by simp
    next
      case False
      with 2(3) [OF Some] Some show ?thesis by simp
    qed
  qed
qed

lemma routeEvent_prefix: "prefix (deliveries w) (deliveries (routeEvent w m now))"
  by (simp add: routeEvent_def deliver_to_clients_prefix)

lemma handleStateDelta_prefix: "prefix (deliveries w) (deliveries (handleStateDelta w d now))"
  by (simp add: handleStateDelta_deliveries)

lemma handleStateDelta_grows:
  "prefix xs (deliveries w) \<Longrightarrow> prefix xs (deliveries (handleStateDelta w d now))"
  by (erule prefix_order.trans) (rule handleStateDelta_prefix)

lemma routeState_prefix: "prefix (deliveries w) (deliveries (routeState w m now))"
  by (auto simp: routeState_def sendError_prefix split: payload.splits sum.splits option.splits
        intro!: handleStateDelta_grows)

lemma handleError_prefix: "prefix (deliveries w) (deliveries (handleError w m now))"
  by (simp add: handleError_def invoke_prefix split: option.splits)

lemma handleUnsubscribe_prefix: "prefix (deliveries w) (deliveries (handleUnsubscribe w m now))"
  by (auto simp: handleUnsubscribe_def Let_def case_prod_beta split: payload.splits option.splits
        intro!: invoke_grows)

lemma entryToMessage_grows:
  "prefix xs (deliveries w) \<Longrightarrow> prefix xs (deliveries (snd (entryToMessage w p e now)))"
  by simp

lemma snapshotToMessages_deliveries [simp]:
  "deliveries (snd (snapshotToMessages w es now)) = deliveries w"
  by (induction es arbitrary: w) (auto simp: case_prod_beta)

lemma send_messages_prefix: "prefix (deliveries w) (deliveries (snd (send_messages w t ms now)))"
proof (induction ms arbitrary: w)
  case Nil show ?case by simp
next
  case (Cons m ms)
  obtain out w1 where i: "invoke w t m now = (out, w1)" by (cases "invoke w t m now")
  have p: "prefix (deliveries w) (deliveries w1)" using invoke_prefix [of w t m now] i by simp
  show ?case
  proof (cases out)
    case Returned
    with i p Cons [of w1] show ?thesis by (auto elim: prefix_order.trans)
  next
    case (Threw e)
    with i p show ?thesis by simp
  qed
qed

lemma stream_snapshots_prefix:
  "prefix (deliveries w) (deliveries (snd (stream_snapshots w t pats now)))"
proof (induction pats arbitrary: w)
  case Nil show ?case by simp
next
  case (Cons p pats)
  define w1 where "w1 = snd (snapshotToMessages w (getMatchingEntries (stateStore w) p) now)"
  define ms where "ms = fst (snapshotToMessages w (getMatchingEntries (stateStore w) p) now)"
  obtain out w2 where s: "send_messages w1 t ms now = (out, w2)" by (cases "send_messages w1 t ms now")
  have p1: "prefix (deliveries w) (deliveries w2)"
    using send_messages_prefix [of w1 t ms now] s by (simp add: w1_def)
  show ?case
  proof (cases out)
    case Returned
    with s p1 Cons [of w2] show ?thesis
      by (auto simp: case_prod_beta w1_def ms_def elim: prefix_order.trans)
  next
    case (Threw e)
    with s p1 show ?thesis by (simp add: case_prod_beta w1_def ms_def)
  qed
qed


lemma send_snapshot_prefix:
  "prefix (deliveries w) (deliveries (send_snapshot w t sid pats now))"
proof -
  obtain o3 w3 where i3: "stream_snapshots w t pats now = (o3, w3)"
    by (cases "stream_snapshots w t pats now")
  have p3: "prefix (deliveries w) (deliveries w3)"
    using stream_snapshots_prefix [of w t pats now] i3 by simp
  obtain o5 w5 where i5:
    "invoke (w3\<lparr> sequenceCounter := sequenceCounter w3 + 1 \<rparr>) t
       (snapshot_complete_event sid now (sequenceCounter w3)) now = (o5, w5)"
    by (cases "invoke (w3\<lparr> sequenceCounter := sequenceCounter w3 + 1 \<rparr>) t
       (snapshot_complete_event sid now (sequenceCounter w3)) now")
  have p5: "prefix (deliveries w) (deliveries w5)"
    using invoke_prefix [of "w3\<lparr> sequenceCounter := sequenceCounter w3 + 1 \<rparr>" t
            "snapshot_complete_event sid now (sequenceCounter w3)" now] i5 p3
    by (auto elim: prefix_order.trans)
  show ?thesis
    using i3 i5 p3 p5 by (simp add: send_snapshot_def Let_def split: outcome.splits)
qed

lemma send_snapshot_grows:
  "prefix xs (deliveries w) \<Longrightarrow> prefix xs (deliveries (send_snapshot w t sid pats now))"
  by (erule prefix_order.trans) (rule send_snapshot_prefix)

lemma handleSubscribe_prefix: "prefix (deliveries w) (deliveries (handleSubscribe w m now))"
  by (auto simp: handleSubscribe_def Let_def case_prod_beta
        split: payload.splits option.splits outcome.splits prod.splits
        intro!: send_snapshot_grows invoke_grows)

lemma route_prefix: "prefix (deliveries w) (deliveries (route w m now))"
  by (cases "payload m")
     (simp_all add: route_def routeCommand_prefix routeEvent_prefix routeState_prefix
        handleAck_prefix handleError_prefix handleSubscribe_prefix handleUnsubscribe_prefix)

lemma store_set_prefix: "prefix (deliveries w) (deliveries (store_set w p v ownr now))"
  by (auto simp: store_set_def split: sum.splits option.splits intro!: handleStateDelta_grows)

lemma fold_handleStateDelta_prefix:
  "prefix (deliveries w) (deliveries (fold (\<lambda>d w'. handleStateDelta w' d now) ds w))"
proof (induction ds arbitrary: w)
  case Nil show ?case by simp
next
  case (Cons d ds)
  have "prefix (deliveries w) (deliveries (handleStateDelta w d now))"
    by (rule handleStateDelta_prefix)
  also have "prefix \<dots> (deliveries (fold (\<lambda>d w'. handleStateDelta w' d now) ds (handleStateDelta w d now)))"
    by (rule Cons.IH)
  finally show ?case by simp
qed

lemma store_markOwnerStale_prefix:
  "prefix (deliveries w) (deliveries (store_markOwnerStale w ownr now))"
  using fold_handleStateDelta_prefix
          [of "w\<lparr> stateStore := snd (StateStore_markOwnerStale (stateStore w) ownr now) \<rparr>"]
  by (simp add: store_markOwnerStale_def case_prod_beta)

lemma step_prefix: "prefix (deliveries w) (deliveries (step w i))"
  by (cases i)
     (simp_all add: route_prefix store_set_prefix store_markOwnerStale_prefix registerTarget_def
        unregisterTarget_def cleanupExpired_def split: option.splits)

lemma run_prefix: "prefix (deliveries w) (deliveries (run w ins))"
  unfolding run_def
proof (induction ins arbitrary: w)
  case Nil show ?case by simp
next
  case (Cons i ins)
  have "prefix (deliveries w) (deliveries (step w i))" by (rule step_prefix)
  also have "prefix \<dots> (deliveries (fold (\<lambda>i w'. step w' i) ins (step w i)))" by (rule Cons.IH)
  finally show ?case by simp
qed


section \<open>Subscribing and the snapshot stream\<close>

lemma entryToMessage_content:
  "state_content (fst (entryToMessage w p e now)) = entry_content (p, e)"
  by (simp add: entryToMessage_def state_content_def entry_content_def)

lemma entryToMessage_seq [simp]:
  "sequenceCounter (snd (entryToMessage w p e now)) = sequenceCounter w"
  by (simp add: entryToMessage_def)

lemma snapshotToMessages_frame [simp]:
  "targets (snd (snapshotToMessages w es now)) = targets w"
  "subscriptionManager (snd (snapshotToMessages w es now)) = subscriptionManager w"
  "sequenceCounter (snd (snapshotToMessages w es now)) = sequenceCounter w"
  "entries (stateStore (snd (snapshotToMessages w es now))) = entries (stateStore w)"
  by (induction es arbitrary: w; auto simp: case_prod_beta)+

lemma snapshotToMessages_content:
  "map state_content (fst (snapshotToMessages w es now)) = map entry_content es"
  by (induction es arbitrary: w) (auto simp: case_prod_beta entryToMessage_content)

lemma snapshotToMessages_no_command:
  "m \<in> set (fst (snapshotToMessages w es now)) \<Longrightarrow> \<not> isCommandMessage m"
  by (induction es arbitrary: w) (auto simp: case_prod_beta entryToMessage_state)

lemma invoke_returns:
  "\<not> handler_fails t \<Longrightarrow> \<not> isCommandMessage m \<Longrightarrow> fst (invoke w t m now) = Returned"
  by (simp add: invoke_outcome handler_fails_def split: handler.splits)

lemma send_messages_frame [simp]:
  "targets (snd (send_messages w t ms now)) = targets w"
  "subscriptionManager (snd (send_messages w t ms now)) = subscriptionManager w"
  "sequenceCounter (snd (send_messages w t ms now)) = sequenceCounter w"
  "stateStore (snd (send_messages w t ms now)) = stateStore w"
  by (induction ms arbitrary: w; simp add: case_prod_beta split: prod.splits outcome.splits;
      metis invoke_frame snd_conv)+

lemma send_messages_ok:
  assumes "\<not> handler_fails t" and "\<forall>m \<in> set ms. \<not> isCommandMessage m"
  shows "fst (send_messages w t ms now) = Returned \<and>
         deliveries (snd (send_messages w t ms now)) = deliveries w @ map (Pair t) ms"
  using assms(2)
proof (induction ms arbitrary: w)
  case Nil show ?case by simp
next
  case (Cons m ms)
  obtain w1 where i: "invoke w t m now = (Returned, w1)"
    using invoke_returns [OF assms(1), of m w now] Cons.prems by (cases "invoke w t m now") auto
  have d: "deliveries w1 = deliveries w @ [(t, m)]"
    using invoke_deliveries_no_command [of m w t now] Cons.prems i by simp
  from Cons.IH [of w1] Cons.prems i d show ?case by simp
qed

lemma getMatchingEntries_entries:
  "entries st = entries st' \<Longrightarrow> getMatchingEntries st p = getMatchingEntries st' p"
  by (simp add: getMatchingEntries_def getMatchingPaths_def)

lemma snapshot_content_entries:
  "entries st = entries st' \<Longrightarrow> snapshot_content st pats = snapshot_content st' pats"
  using getMatchingEntries_entries [of st st'] by (simp add: snapshot_content_def)

lemma stream_snapshots_Cons:
  "stream_snapshots w t (p # pats) now =
     (let r = send_messages (snd (snapshotToMessages w (getMatchingEntries (stateStore w) p) now)) t
                (fst (snapshotToMessages w (getMatchingEntries (stateStore w) p) now)) now
      in case fst r of Threw e \<Rightarrow> r | Returned \<Rightarrow> stream_snapshots (snd r) t pats now)"
proof -
  let ?r = "send_messages (snd (snapshotToMessages w (getMatchingEntries (stateStore w) p) now)) t
                (fst (snapshotToMessages w (getMatchingEntries (stateStore w) p) now)) now"
  show ?thesis
    by (cases ?r; cases "fst ?r") (auto simp: case_prod_beta Let_def)
qed

lemma stream_snapshots_frame [simp]:
  "targets (snd (stream_snapshots w t pats now)) = targets w \<and>
   subscriptionManager (snd (stream_snapshots w t pats now)) = subscriptionManager w \<and>
   sequenceCounter (snd (stream_snapshots w t pats now)) = sequenceCounter w \<and>
   entries (stateStore (snd (stream_snapshots w t pats now))) = entries (stateStore w)"
proof (induction pats arbitrary: w)
  case Nil
  show ?case by simp
next
  case (Cons p pats)
  let ?r = "send_messages (snd (snapshotToMessages w (getMatchingEntries (stateStore w) p) now)) t
                (fst (snapshotToMessages w (getMatchingEntries (stateStore w) p) now)) now"
  have f: "targets (snd ?r) = targets w" "subscriptionManager (snd ?r) = subscriptionManager w"
    "sequenceCounter (snd ?r) = sequenceCounter w"
    "entries (stateStore (snd ?r)) = entries (stateStore w)"
    by simp_all
  show ?case
    unfolding stream_snapshots_Cons Let_def
    using f Cons.IH [of "snd ?r"] by (cases "fst ?r") simp_all
qed

lemma stream_snapshots_ok:
  assumes "\<not> handler_fails t"
  shows "fst (stream_snapshots w t pats now) = Returned \<and>
         (\<exists>snaps. deliveries (snd (stream_snapshots w t pats now)) = deliveries w @ map (Pair t) snaps
                 \<and> map state_content snaps = snapshot_content (stateStore w) pats)"
proof (induction pats arbitrary: w)
  case Nil
  show ?case by (simp add: snapshot_content_def)
next
  case (Cons p pats)
  let ?w1 = "snd (snapshotToMessages w (getMatchingEntries (stateStore w) p) now)"
  let ?ms = "fst (snapshotToMessages w (getMatchingEntries (stateStore w) p) now)"
  have nc: "\<forall>m \<in> set ?ms. \<not> isCommandMessage m"
    using snapshotToMessages_no_command by blast
  obtain w2 where s: "send_messages ?w1 t ?ms now = (Returned, w2)"
    using send_messages_ok [OF assms nc, of ?w1 now] by (cases "send_messages ?w1 t ?ms now") auto
  have d2: "deliveries w2 = deliveries w @ map (Pair t) ?ms"
    using send_messages_ok [OF assms nc, of ?w1 now] s by simp
  have e2: "entries (stateStore w2) = entries (stateStore w)"
    using send_messages_frame(4) [of ?w1 t ?ms now] s by simp
  from Cons.IH [of w2] obtain snaps where
    r: "fst (stream_snapshots w2 t pats now) = Returned"
    and d: "deliveries (snd (stream_snapshots w2 t pats now)) = deliveries w2 @ map (Pair t) snaps"
    and c: "map state_content snaps = snapshot_content (stateStore w2) pats"
    by blast
  have eq: "stream_snapshots w t (p # pats) now = stream_snapshots w2 t pats now"
    unfolding stream_snapshots_Cons Let_def using s by simp
  have "deliveries (snd (stream_snapshots w t (p # pats) now)) = deliveries w @ map (Pair t) (?ms @ snaps)"
    unfolding eq using d d2 by simp
  moreover have "map state_content (?ms @ snaps) = snapshot_content (stateStore w) (p # pats)"
    using c snapshot_content_entries [OF e2, of pats]
    by (simp add: snapshot_content_def snapshotToMessages_content)
  ultimately show ?case unfolding eq using r by blast
qed


lemma snapshot_complete_event_no_command:
  "\<not> isCommandMessage (snapshot_complete_event sid now sq)"
  by (simp add: snapshot_complete_event_def isCommandMessage_def)

lemma send_snapshot_ok:
  assumes "\<not> handler_fails t"
  shows "\<exists>snaps. deliveries (send_snapshot w t sid pats now) =
                   deliveries w @ map (Pair t) snaps
                   @ [(t, snapshot_complete_event sid now (sequenceCounter w))]
                 \<and> map state_content snaps = snapshot_content (stateStore w) pats"
proof -
  let ?w3 = "snd (stream_snapshots w t pats now)"
  have r3: "fst (stream_snapshots w t pats now) = Returned"
    using stream_snapshots_ok [OF assms, of w pats now] by simp
  obtain snaps where d3: "deliveries ?w3 = deliveries w @ map (Pair t) snaps"
    and c: "map state_content snaps = snapshot_content (stateStore w) pats"
    using stream_snapshots_ok [OF assms, of w pats now] by auto
  have q: "sequenceCounter ?w3 = sequenceCounter w" by simp
  let ?ev = "snapshot_complete_event sid now (sequenceCounter w)"
  let ?w4 = "?w3\<lparr> sequenceCounter := sequenceCounter w + 1 \<rparr>"
  let ?w5 = "snd (invoke ?w4 t ?ev now)"
  have r5: "fst (invoke ?w4 t ?ev now) = Returned"
    by (rule invoke_returns [OF assms snapshot_complete_event_no_command])
  have d5: "deliveries ?w5 = deliveries ?w3 @ [(t, ?ev)]"
    by (simp add: invoke_deliveries_no_command [OF snapshot_complete_event_no_command])
  have "send_snapshot w t sid pats now =
          ?w5\<lparr> subscriptionManager := markSnapshotSent (subscriptionManager ?w5) sid \<rparr>"
    using r3 r5 by (simp add: send_snapshot_def Let_def case_prod_beta)
  then have "deliveries (send_snapshot w t sid pats now) = deliveries w @ map (Pair t) snaps @ [(t, ?ev)]"
    using d5 d3 by simp
  with c show ?thesis by blast
qed

lemma subscribe_id:
  "sub_id (fst (subscribe sm cid pats flt snap now)) = ''sub-'' @ nat_toString (idCounter sm + 1)"
  by (simp add: subscribe_def Let_def)

lemma handleSubscribe_snapshot:
  assumes "payload m = SubscribePayload pats flt (Some True)"
    and "Map_get (targets w) (source m) = Some t" and "\<not> handler_fails t"
  shows "\<exists>snaps. deliveries (handleSubscribe w m now) =
           deliveries w
           @ (t, createAck (generateUuidV7 (uuid_counter w)) now ''hub.core'' (source m) (msg_path m)
                   (msg_id m) Completed
                   (Some (JObj [(''subscriptionId'',
                                 JStr (''sub-'' @ nat_toString (idCounter (subscriptionManager w) + 1)))]))
                   None (correlationId m) (sequenceCounter w))
           # map (Pair t) snaps
           @ [(t, snapshot_complete_event
                    (''sub-'' @ nat_toString (idCounter (subscriptionManager w) + 1)) now
                    (sequenceCounter w + 1))]
         \<and> map state_content snaps = snapshot_content (stateStore w) pats"
proof -
  let ?sid = "''sub-'' @ nat_toString (idCounter (subscriptionManager w) + 1)"
  let ?ack = "createAck (generateUuidV7 (uuid_counter w)) now ''hub.core'' (source m) (msg_path m)
                   (msg_id m) Completed (Some (JObj [(''subscriptionId'', JStr ?sid)]))
                   None (correlationId m) (sequenceCounter w)"
  let ?w1 = "w\<lparr> subscriptionManager := snd (subscribe (subscriptionManager w) (source m) pats flt (Some True) now),
                  sequenceCounter := sequenceCounter w + 1, uuid_counter := uuid_counter w + 1 \<rparr>"
  let ?w2 = "snd (invoke ?w1 t ?ack now)"
  have nc: "\<not> isCommandMessage ?ack" by (simp add: isCommandMessage_def)
  have r: "fst (invoke ?w1 t ?ack now) = Returned" by (rule invoke_returns [OF assms(3) nc])
  have d2: "deliveries ?w2 = deliveries w @ [(t, ?ack)]"
    using invoke_deliveries_no_command [OF nc, of ?w1 t now] by simp
  have f2: "sequenceCounter ?w2 = sequenceCounter w + 1" "stateStore ?w2 = stateStore w"
    by simp_all
  have eq: "handleSubscribe w m now = send_snapshot ?w2 t ?sid pats now"
    using assms(1,2) r by (simp add: handleSubscribe_def case_prod_beta Let_def subscribe_id)
  obtain snaps where
    "deliveries (send_snapshot ?w2 t ?sid pats now) =
       deliveries ?w2 @ map (Pair t) snaps @ [(t, snapshot_complete_event ?sid now (sequenceCounter ?w2))]"
    and "map state_content snaps = snapshot_content (stateStore ?w2) pats"
    using send_snapshot_ok [OF assms(3), of ?w2 ?sid pats now] by blast
  then have "deliveries (handleSubscribe w m now) =
               deliveries w @ (t, ?ack) # map (Pair t) snaps
               @ [(t, snapshot_complete_event ?sid now (sequenceCounter w + 1))]"
    and "map state_content snaps = snapshot_content (stateStore w) pats"
    unfolding eq using d2 f2 by simp_all
  then show ?thesis by blast
qed

lemma handleSubscribe_no_snapshot:
  assumes "payload m = SubscribePayload pats flt snap" and "snap \<noteq> Some True"
  shows "deliveries (handleSubscribe w m now) =
           deliveries w @
             (case Map_get (targets w) (source m) of
                None \<Rightarrow> []
              | Some t \<Rightarrow>
                  [(t, createAck (generateUuidV7 (uuid_counter w)) now ''hub.core'' (source m)
                         (msg_path m) (msg_id m) Completed
                         (Some (JObj [(''subscriptionId'',
                                       JStr (''sub-'' @ nat_toString (idCounter (subscriptionManager w) + 1)))]))
                         None (correlationId m) (sequenceCounter w))])"
    and "subscriptionManager (handleSubscribe w m now) =
           snd (subscribe (subscriptionManager w) (source m) pats flt snap now)"
proof -
  let ?sid = "''sub-'' @ nat_toString (idCounter (subscriptionManager w) + 1)"
  let ?ack = "createAck (generateUuidV7 (uuid_counter w)) now ''hub.core'' (source m) (msg_path m)
                   (msg_id m) Completed (Some (JObj [(''subscriptionId'', JStr ?sid)]))
                   None (correlationId m) (sequenceCounter w)"
  let ?w1 = "w\<lparr> subscriptionManager := snd (subscribe (subscriptionManager w) (source m) pats flt snap now),
                  sequenceCounter := sequenceCounter w + 1, uuid_counter := uuid_counter w + 1 \<rparr>"
  have nc: "\<not> isCommandMessage ?ack" by (simp add: isCommandMessage_def)
  have eq: "handleSubscribe w m now =
              (case Map_get (targets w) (source m) of None \<Rightarrow> ?w1
               | Some t \<Rightarrow> snd (invoke ?w1 t ?ack now))"
    using assms
    by (simp add: handleSubscribe_def case_prod_beta Let_def subscribe_id
          split: option.splits outcome.splits)
  show "deliveries (handleSubscribe w m now) =
           deliveries w @ (case Map_get (targets w) (source m) of None \<Rightarrow> [] | Some t \<Rightarrow> [(t, ?ack)])"
    unfolding eq using invoke_deliveries_no_command [OF nc, of ?w1 _ now]
    by (simp split: option.splits)
  show "subscriptionManager (handleSubscribe w m now) =
           snd (subscribe (subscriptionManager w) (source m) pats flt snap now)"
    unfolding eq by (simp split: option.splits)
qed


lemma keeps_waiting_shrink:
  assumes "keeps_waiting sm n" and "idCounter sm' = idCounter sm"
    and "\<And>k. Map_get (subscriptionsById sm') k = None
              \<or> Map_get (subscriptionsById sm') k = Map_get (subscriptionsById sm) k"
    and "fst ` set (subscriptionsById sm') \<subseteq> fst ` set (subscriptionsById sm)"
  shows "keeps_waiting sm' n"
proof -
  have "awaiting_snapshot sm' (''sub-'' @ nat_toString n)"
    using assms(1) assms(3) [of "''sub-'' @ nat_toString n"]
    by (auto simp: keeps_waiting_def awaiting_snapshot_def split: option.splits)
  moreover have "ids_bounded sm'"
    unfolding ids_bounded_def
  proof
    fix k assume "k \<in> fst ` set (subscriptionsById sm')"
    then have "k \<in> fst ` set (subscriptionsById sm)" using assms(4) by (rule subsetD [rotated])
    then show "\<exists>n. n \<le> idCounter sm' \<and> k = ''sub-'' @ nat_toString n"
      using assms(1) unfolding keeps_waiting_def ids_bounded_def assms(2) by blast
  qed
  ultimately show ?thesis using assms(1,2) by (simp add: keeps_waiting_def)
qed

lemma subscribe_new_entry:
  "Map_get (subscriptionsById (snd (subscribe sm cid pats flt snap now)))
     (''sub-'' @ nat_toString (idCounter sm + 1)) = Some (fst (subscribe sm cid pats flt snap now))"
  by (simp add: subscribe_def Let_def Map_get_set)

lemma subscribe_keeps:
  assumes "keeps_waiting sm n"
  shows "keeps_waiting (snd (subscribe sm cid pats flt snap now)) n"
proof -
  let ?sm' = "snd (subscribe sm cid pats flt snap now)"
  have ne: "''sub-'' @ nat_toString n \<noteq> ''sub-'' @ nat_toString (idCounter sm + 1)"
    using assms nat_toString_inj [of n "idCounter sm + 1"] by (auto simp: keeps_waiting_def)
  have g: "Map_get (subscriptionsById ?sm') (''sub-'' @ nat_toString n)
             = Map_get (subscriptionsById sm) (''sub-'' @ nat_toString n)"
    using ne by (simp add: subscribe_def Let_def Map_get_set)
  have c: "idCounter ?sm' = idCounter sm + 1" by (simp add: subscribe_def Let_def)
  have k: "fst ` set (subscriptionsById ?sm')
             = insert (''sub-'' @ nat_toString (idCounter sm + 1)) (fst ` set (subscriptionsById sm))"
    by (simp add: subscribe_def Let_def keys_Map_set)
  have "ids_bounded ?sm'"
    unfolding ids_bounded_def k c
    using assms by (auto simp: keeps_waiting_def ids_bounded_def intro: le_SucI)
  then show ?thesis using assms g c by (simp add: keeps_waiting_def awaiting_snapshot_def)
qed

lemma markSnapshotSent_keeps:
  assumes "keeps_waiting sm n" and "k \<noteq> n"
  shows "keeps_waiting (markSnapshotSent sm (''sub-'' @ nat_toString k)) n"
proof -
  have ne: "''sub-'' @ nat_toString n \<noteq> ''sub-'' @ nat_toString k"
    using assms(2) nat_toString_inj [of n k] by auto
  show ?thesis
  proof (cases "Map_get (subscriptionsById sm) (''sub-'' @ nat_toString k)")
    case None
    with assms(1) show ?thesis by (simp add: markSnapshotSent_def)
  next
    case (Some s)
    then have "''sub-'' @ nat_toString k \<in> fst ` set (subscriptionsById sm)"
      by (auto simp: Map_get_def dest: map_of_SomeD intro: rev_image_eqI)
    then have "fst ` set (subscriptionsById (markSnapshotSent sm (''sub-'' @ nat_toString k)))
                 = fst ` set (subscriptionsById sm)"
      using Some by (auto simp: markSnapshotSent_def keys_Map_set)
    then show ?thesis
      using assms(1) Some ne
      by (simp add: keeps_waiting_def ids_bounded_def awaiting_snapshot_def markSnapshotSent_def
            Map_get_set)
  qed
qed

lemma unsubscribe_keeps:
  assumes "keeps_waiting sm n"
  shows "keeps_waiting (snd (unsubscribe sm sid)) n"
proof (rule keeps_waiting_shrink [OF assms])
  show "idCounter (snd (unsubscribe sm sid)) = idCounter sm"
    by (simp add: unsubscribe_def split: option.splits)
  show "Map_get (subscriptionsById (snd (unsubscribe sm sid))) k = None
          \<or> Map_get (subscriptionsById (snd (unsubscribe sm sid))) k = Map_get (subscriptionsById sm) k" for k
    by (simp add: unsubscribe_def Map_get_delete split: option.splits)
  show "fst ` set (subscriptionsById (snd (unsubscribe sm sid))) \<subseteq> fst ` set (subscriptionsById sm)"
    using keys_Map_delete [of "subscriptionsById sm" sid]
    by (simp add: unsubscribe_def split: option.splits)
qed

lemma unsubscribePatterns_loop_keeps:
  "keeps_waiting sm n \<Longrightarrow> keeps_waiting (snd (unsubscribePatterns_loop sm pats ids removed)) n"
  by (induction sm pats ids removed rule: unsubscribePatterns_loop.induct)
     (auto simp: unsubscribe_keeps split: option.splits)

lemma unsubscribePatterns_keeps:
  "keeps_waiting sm n \<Longrightarrow> keeps_waiting (snd (unsubscribePatterns sm cid pats)) n"
  by (simp add: unsubscribePatterns_def unsubscribePatterns_loop_keeps split: option.splits)

lemma fold_delete_get:
  "Map_get (fold (\<lambda>subId m. Map_delete m subId) ids m) k = (if k \<in> set ids then None else Map_get m k)"
  by (induction ids arbitrary: m) (auto simp: Map_get_delete)

lemma fold_delete_keys:
  "fst ` set (fold (\<lambda>subId m. Map_delete m subId) ids m) \<subseteq> fst ` set m"
proof (induction ids arbitrary: m)
  case Nil show ?case by simp
next
  case (Cons i ids)
  have "fst ` set (fold (\<lambda>subId m. Map_delete m subId) ids (Map_delete m i)) \<subseteq> fst ` set (Map_delete m i)"
    by (rule Cons.IH)
  also have "\<dots> \<subseteq> fst ` set m" by (rule keys_Map_delete)
  finally show ?case by simp
qed

lemma unsubscribeClient_keeps:
  assumes "keeps_waiting sm n"
  shows "keeps_waiting (snd (unsubscribeClient sm cid)) n"
proof (rule keeps_waiting_shrink [OF assms])
  show "idCounter (snd (unsubscribeClient sm cid)) = idCounter sm"
    by (simp add: unsubscribeClient_def split: option.splits)
  show "Map_get (subscriptionsById (snd (unsubscribeClient sm cid))) k = None
          \<or> Map_get (subscriptionsById (snd (unsubscribeClient sm cid))) k = Map_get (subscriptionsById sm) k" for k
    by (simp add: unsubscribeClient_def fold_delete_get split: option.splits)
  show "fst ` set (subscriptionsById (snd (unsubscribeClient sm cid))) \<subseteq> fst ` set (subscriptionsById sm)"
    using fold_delete_keys [of _ "subscriptionsById sm"]
    by (simp add: unsubscribeClient_def split: option.splits)
qed


lemma routeCommand_subs [simp]:
  "subscriptionManager (routeCommand w m now) = subscriptionManager w"
  by (simp add: routeCommand_def Let_def case_prod_beta split: option.splits outcome.splits)

lemma routeEvent_subs [simp]: "subscriptionManager (routeEvent w m now) = subscriptionManager w"
  by (simp add: routeEvent_def)

lemma handleStateDelta_subs [simp]:
  "subscriptionManager (handleStateDelta w d now) = subscriptionManager w"
  by (simp add: handleStateDelta_def case_prod_beta Let_def)

lemma routeState_subs [simp]: "subscriptionManager (routeState w m now) = subscriptionManager w"
  by (simp add: routeState_def split: payload.splits sum.splits option.splits prod.splits)

lemma handleError_subs [simp]: "subscriptionManager (handleError w m now) = subscriptionManager w"
  by (simp add: handleError_def split: option.splits)

lemma store_set_subs [simp]: "subscriptionManager (store_set w p v ownr now) = subscriptionManager w"
  by (simp add: store_set_def split: sum.splits option.splits prod.splits)

lemma fold_handleStateDelta_subs [simp]:
  "subscriptionManager (fold (\<lambda>d w'. handleStateDelta w' d now) ds w) = subscriptionManager w"
  by (induction ds arbitrary: w) simp_all

lemma store_markOwnerStale_subs [simp]:
  "subscriptionManager (store_markOwnerStale w ownr now) = subscriptionManager w"
  by (simp add: store_markOwnerStale_def case_prod_beta Let_def)

lemma send_snapshot_subs:
  "subscriptionManager (send_snapshot w t sid pats now) = subscriptionManager w
   \<or> subscriptionManager (send_snapshot w t sid pats now) = markSnapshotSent (subscriptionManager w) sid"
proof -
  let ?r = "stream_snapshots w t pats now"
  let ?w4 = "(snd ?r)\<lparr> sequenceCounter := sequenceCounter (snd ?r) + 1 \<rparr>"
  let ?i = "invoke ?w4 t (snapshot_complete_event sid now (sequenceCounter (snd ?r))) now"
  have a: "subscriptionManager (snd ?r) = subscriptionManager w" by simp
  have b: "subscriptionManager (snd ?i) = subscriptionManager w" using a by simp
  show ?thesis
  proof (cases "fst ?r")
    case (Threw e)
    then have "send_snapshot w t sid pats now = snd ?r"
      by (simp add: send_snapshot_def case_prod_beta)
    then show ?thesis using a by simp
  next
    case Returned
    show ?thesis
    proof (cases "fst ?i")
      case (Threw e)
      then have "send_snapshot w t sid pats now = snd ?i"
        using Returned by (simp add: send_snapshot_def case_prod_beta Let_def)
      then show ?thesis using b by simp
    next
      case R2: Returned
      then have "send_snapshot w t sid pats now
                   = (snd ?i)\<lparr> subscriptionManager := markSnapshotSent (subscriptionManager (snd ?i)) sid \<rparr>"
        using Returned by (simp add: send_snapshot_def case_prod_beta Let_def)
      then show ?thesis using b by simp
    qed
  qed
qed

lemma handleSubscribe_subs:
  assumes "payload m = SubscribePayload pats flt snap"
  shows "subscriptionManager (handleSubscribe w m now)
           = snd (subscribe (subscriptionManager w) (source m) pats flt snap now)
       \<or> subscriptionManager (handleSubscribe w m now)
           = markSnapshotSent (snd (subscribe (subscriptionManager w) (source m) pats flt snap now))
               (''sub-'' @ nat_toString (idCounter (subscriptionManager w) + 1))"
proof -
  let ?sm = "snd (subscribe (subscriptionManager w) (source m) pats flt snap now)"
  let ?sid = "''sub-'' @ nat_toString (idCounter (subscriptionManager w) + 1)"
  let ?ack = "createAck (generateUuidV7 (uuid_counter w)) now ''hub.core'' (source m) (msg_path m)
                   (msg_id m) Completed (Some (JObj [(''subscriptionId'', JStr ?sid)]))
                   None (correlationId m) (sequenceCounter w)"
  let ?w1 = "w\<lparr> subscriptionManager := ?sm,
                  sequenceCounter := sequenceCounter w + 1, uuid_counter := uuid_counter w + 1 \<rparr>"
  show ?thesis
  proof (cases "Map_get (targets w) (source m)")
    case None
    then have "handleSubscribe w m now = ?w1"
      using assms by (simp add: handleSubscribe_def case_prod_beta Let_def)
    then show ?thesis by simp
  next
    case (Some t)
    let ?i = "invoke ?w1 t ?ack now"
    have b: "subscriptionManager (snd ?i) = ?sm" by simp
    have "handleSubscribe w m now = snd ?i
          \<or> handleSubscribe w m now = send_snapshot (snd ?i) t ?sid pats now"
      using assms Some
      by (simp add: handleSubscribe_def case_prod_beta Let_def subscribe_id split: outcome.splits)
    then show ?thesis
      using b send_snapshot_subs [of "snd ?i" t ?sid pats now] by auto
  qed
qed

lemma handleSubscribe_keeps:
  assumes "keeps_waiting (subscriptionManager w) n"
  shows "keeps_waiting (subscriptionManager (handleSubscribe w m now)) n"
proof (cases "\<exists>pats flt snap. payload m = SubscribePayload pats flt snap")
  case False
  then have "handleSubscribe w m now = w"
    by (cases "payload m") (simp_all add: handleSubscribe_def)
  then show ?thesis using assms by simp
next
  case True
  then obtain pats flt snap where p: "payload m = SubscribePayload pats flt snap" by blast
  let ?sm = "snd (subscribe (subscriptionManager w) (source m) pats flt snap now)"
  have k: "keeps_waiting ?sm n" using assms by (rule subscribe_keeps)
  have "idCounter (subscriptionManager w) + 1 \<noteq> n" using assms by (simp add: keeps_waiting_def)
  then have "keeps_waiting (markSnapshotSent ?sm
               (''sub-'' @ nat_toString (idCounter (subscriptionManager w) + 1))) n"
    by (rule markSnapshotSent_keeps [OF k])
  then show ?thesis using handleSubscribe_subs [OF p, of w now] k by auto
qed

lemma handleUnsubscribe_keeps:
  assumes "keeps_waiting (subscriptionManager w) n"
  shows "keeps_waiting (subscriptionManager (handleUnsubscribe w m now)) n"
  using assms unsubscribePatterns_keeps [OF assms, of "source m"]
  by (simp add: handleUnsubscribe_def case_prod_beta Let_def split: payload.splits option.splits)

lemma route_keeps:
  "keeps_waiting (subscriptionManager w) n \<Longrightarrow> keeps_waiting (subscriptionManager (route w m now)) n"
  by (simp add: route_def handleSubscribe_keeps handleUnsubscribe_keeps split: payload.splits)

lemma step_keeps:
  assumes "keeps_waiting (subscriptionManager w) n"
  shows "keeps_waiting (subscriptionManager (step w i)) n"
proof (cases i)
  case (Route m now)
  then show ?thesis using assms by (simp add: route_keeps)
next
  case (RegisterTarget t)
  then show ?thesis using assms by (simp add: registerTarget_def)
next
  case (UnregisterTarget ns)
  then show ?thesis
    using assms unsubscribeClient_keeps [OF assms]
    by (simp add: unregisterTarget_def split: option.splits)
next
  case (CleanupExpired now)
  then show ?thesis using assms by (simp add: cleanupExpired_def)
next
  case (StoreSet p v ownr now)
  then show ?thesis using assms by simp
next
  case (MarkOwnerStale ownr now)
  then show ?thesis using assms by simp
qed

lemma run_keeps:
  "keeps_waiting (subscriptionManager w) n \<Longrightarrow> keeps_waiting (subscriptionManager (run w ins)) n"
  unfolding run_def by (induction ins arbitrary: w) (simp_all add: step_keeps)

lemma new_router_bounded: "keeps_waiting (subscriptionManager (new_MessageRouter st a)) 0"
  by (simp add: new_MessageRouter_def new_SubscriptionManager_def keeps_waiting_def ids_bounded_def
        awaiting_snapshot_def Map_get_def)

lemma reachable_bounded: "ids_bounded (subscriptionManager (run (new_MessageRouter st a) ins))"
  using run_keeps [OF new_router_bounded, of st a ins] by (simp add: keeps_waiting_def)

lemma subscribe_waits:
  assumes "ids_bounded sm" and "snap \<noteq> Some False"
  shows "keeps_waiting (snd (subscribe sm cid pats flt snap now)) (idCounter sm + 1)"
proof -
  let ?sm' = "snd (subscribe sm cid pats flt snap now)"
  have c: "idCounter ?sm' = idCounter sm + 1" by (simp add: subscribe_def Let_def)
  have k: "fst ` set (subscriptionsById ?sm')
             = insert (''sub-'' @ nat_toString (idCounter sm + 1)) (fst ` set (subscriptionsById sm))"
    by (simp add: subscribe_def Let_def keys_Map_set)
  have "ids_bounded ?sm'"
    unfolding ids_bounded_def k c
    using assms(1) by (auto simp: ids_bounded_def intro: le_SucI)
  moreover have "awaiting_snapshot ?sm' (''sub-'' @ nat_toString (idCounter sm + 1))"
    using assms(2) unfolding awaiting_snapshot_def subscribe_new_entry
    by (cases snap) (simp_all add: subscribe_def Let_def)
  ultimately show ?thesis using c by (simp add: keeps_waiting_def)
qed


section \<open>Routing by message type\<close>

lemma route_command: "isCommandMessage m \<Longrightarrow> route w m now = routeCommand w m now"
  by (cases "payload m") (simp_all add: route_def isCommandMessage_def)

lemma route_state:
  "payload m = StatePayload v stl ownr ver \<Longrightarrow> route w m now = routeState w m now"
  by (simp add: route_def)

lemma route_event: "payload m = EventPayload ev dat \<Longrightarrow> route w m now = routeEvent w m now"
  by (simp add: route_def)

lemma route_subscribe:
  "payload m = SubscribePayload pats flt snap \<Longrightarrow> route w m now = handleSubscribe w m now"
  by (simp add: route_def)

lemma new_deliveries_append [simp]: "deliveries w' = deliveries w @ ds \<Longrightarrow> new_deliveries w w' = ds"
  by (simp add: new_deliveries_def)

lemma store_set_conflict:
  assumes "Map_get (entries (stateStore w)) P = Some e" and "owner e \<noteq> writer"
  shows "store_set w P v writer now = w"
  using assms by (simp add: store_set_def set_conflict)


section \<open>Ownership conflicts (C4)\<close>

text \<open>
  Claim C4: a write to a path that another namespace owns fails with the ownership error
  and is not applied. The store's \<^verbatim>\<open>set\<close> raises the error without returning a new store, so
  a direct write leaves the hub as it was; when the write arrives as a routed state
  message the store (entry and global version included) is unchanged, and the only
  handler call made is the delivery, to the target registered for the writer's namespace,
  of an error message with code STATE_CONFLICT that names the rejected message.
\<close>

theorem ownership_conflict_rejected:
  assumes "Map_get (entries (stateStore w)) (msg_path m) = Some e" and "owner e \<noteq> source m"
    and "payload m = StatePayload v stl ownr ver"
    and "Map_get (targets w) (source m) = Some t"
  shows "StateStore_set (stateStore w) (msg_path m) v (source m) now
           = Inl (StateOwnershipError (msg_path m) (owner e) (source m)) \<and>
         store_set w (msg_path m) v (source m) now = w \<and>
         stateStore (route w m now) = stateStore w \<and>
         StateStore_get (stateStore (route w m now)) (msg_path m) = Some e \<and>
         new_deliveries w (route w m now) =
           [(t, createError (generateUuidV7 (uuid_counter w)) now ''hub.core'' (Some (source m))
                  (msg_path m) STATE_CONFLICT
                  (ownership_message (StateOwnershipError (msg_path m) (owner e) (source m)))
                  (Some (msg_id m)) (correlationId m) (sequenceCounter w))]"
proof -
  have r: "route w m now = routeState w m now" using assms(3) by (rule route_state)
  have s: "stateStore (routeState w m now) = stateStore w"
    using assms(1-3) by (rule routeState_conflict(1))
  have g: "StateStore_get (stateStore w) (msg_path m) = Some e"
    using assms(1) by (simp add: StateStore_get_def)
  show ?thesis
    unfolding r s
    using routeState_conflict(2) [OF assms(1-3), of now] assms(4) g
      set_conflict [OF assms(1,2), of v now] store_set_conflict [OF assms(1,2), of v now]
    by simp
qed

text \<open>
  Witness for C4: \<^verbatim>\<open>app.x\<close> writes to \<^verbatim>\<open>app.y.level\<close>, which \<^verbatim>\<open>app.y\<close> owns. The entry is still
  the one \<^verbatim>\<open>app.y\<close> wrote, and \<^verbatim>\<open>app.x\<close> is sent STATE_CONFLICT.
\<close>

theorem ownership_conflict_rejected_witness:
  "stateStore (route owned_router conflicting_write 1000) = stateStore owned_router \<and>
   StateStore_get (stateStore (route owned_router conflicting_write 1000)) ''app.y.level''
     = Some level_entry \<and>
   map (\<lambda>d. (namespace (fst d), payload (snd d)))
       (new_deliveries owned_router (route owned_router conflicting_write 1000))
     = [(''app.x'',
         ErrorPayload STATE_CONFLICT
           (ownership_message (StateOwnershipError ''app.y.level'' ''app.y'' ''app.x''))
           (Some ''st-1''))]"
proof -
  have a: "Map_get (entries (stateStore owned_router)) (msg_path conflicting_write) = Some level_entry"
    by (simp add: owned_router_def conflicting_write_def Map_get_def)
  have b: "owner level_entry \<noteq> source conflicting_write"
    by (simp add: level_entry_def conflicting_write_def)
  have c: "payload conflicting_write = StatePayload (JNum 2) None None None"
    by (simp add: conflicting_write_def)
  have d: "Map_get (targets owned_router) (source conflicting_write) = Some client_target"
    by (simp add: owned_router_def example_router_def conflicting_write_def Map_get_def)
  have e: "msg_path conflicting_write = ''app.y.level''" "msg_id conflicting_write = ''st-1''"
    "source conflicting_write = ''app.x''" "owner level_entry = ''app.y''"
    "namespace client_target = ''app.x''"
    by (simp_all add: conflicting_write_def level_entry_def client_target_def)
  from ownership_conflict_rejected [OF a b c d, of 1000] show ?thesis
    by (auto simp: e)
qed


section \<open>Target resolution (C6)\<close>

lemma resolution_order_satellite:
  "resolution_order ''companion.satellite'' = [''companion.satellite'', ''companion'']"
  by (simp add: resolution_order_def)

text \<open>
  Claim C6: a routed command that the idempotency cache does not answer is resolved by
  \<^verbatim>\<open>findTarget\<close>, which returns the first registered namespace among the target namespace
  itself and the namespaces left after trimming its last dot-segment once, twice, and
  so on. When a target resolves, its handler receives the command (the sender's handler
  having accepted the received ack). When none resolves, the only handler call is the
  delivery of an error with code UNKNOWN_TARGET to the target registered for the command's
  source, and no handler receives the command.
\<close>

theorem command_target_resolution:
  assumes "isCommandMessage m" and "target m = Some ns" and "\<not> cache_hit w m"
    and "Map_get (targets w) (source m) = Some s" and "\<not> handler_fails s"
  shows "findTarget (targets w) ns = first_registered (targets w) (resolution_order ns) \<and>
         (case findTarget (targets w) ns of
            Some t \<Rightarrow> (t, m) \<in> set (new_deliveries w (route w m now))
          | None \<Rightarrow>
              new_deliveries w (route w m now) =
                [(s, createError (generateUuidV7 (uuid_counter w)) now ''hub.core'' (Some (source m))
                       (msg_path m) UNKNOWN_TARGET (''Unknown target: '' @ ns) (Some (msg_id m))
                       (correlationId m) (sequenceCounter w))] \<and>
              m \<notin> snd ` set (new_deliveries w (route w m now)))"
proof -
  have r: "route w m now = routeCommand w m now" using assms(1) by (rule route_command)
  have ok: "handler s' \<noteq> FailingHandler e" if "Map_get (targets w) (source m) = Some s'" for s' e
    using that assms(4,5) by (auto simp: handler_fails_def)
  show ?thesis
  proof (cases "findTarget (targets w) ns")
    case None
    show ?thesis
      unfolding r
      using None routeCommand_unknown_deliveries [OF assms(3,2) None, of now]
        command_not_dispatched [OF assms(3,2) None assms(1), of now] assms(4)
      by (simp add: findTarget_order [symmetric])
  next
    case (Some t)
    show ?thesis
      unfolding r
      using Some routeCommand_dispatch [OF assms(3,2) Some ok, of now]
      by (simp add: findTarget_order [symmetric])
  qed
qed

text \<open>
  Witness for C6: with the adapter registered at \<^verbatim>\<open>companion\<close> only, a press addressed to
  \<^verbatim>\<open>companion.satellite\<close> reaches the handler registered at \<^verbatim>\<open>companion\<close>; a press addressed
  to \<^verbatim>\<open>atem.me\<close> reaches no handler and \<^verbatim>\<open>app.x\<close> is sent UNKNOWN_TARGET.
\<close>

theorem command_target_resolution_witness:
  "resolution_order ''companion.satellite'' = [''companion.satellite'', ''companion''] \<and>
   findTarget (targets prefix_router) ''companion.satellite'' = Some companion_target \<and>
   (companion_target, press_5) \<in> set (new_deliveries prefix_router (route prefix_router press_5 1000)) \<and>
   findTarget (targets prefix_router) ''atem.me'' = None \<and>
   map (\<lambda>d. (namespace (fst d), payload (snd d)))
       (new_deliveries prefix_router (route prefix_router stray_press 1000))
     = [(''app.x'', ErrorPayload UNKNOWN_TARGET ''Unknown target: atem.me'' (Some ''cmd-1''))] \<and>
   stray_press \<notin> snd ` set (new_deliveries prefix_router (route prefix_router stray_press 1000))"
proof -
  have c: "isCommandMessage press_5" "isCommandMessage stray_press"
    by (simp_all add: isCommandMessage_def press_5_def stray_press_def example_command_def)
  have t: "target press_5 = Some ''companion.satellite''" "target stray_press = Some ''atem.me''"
    by (simp_all add: press_5_def stray_press_def example_command_def)
  have h: "\<not> cache_hit prefix_router press_5" "\<not> cache_hit prefix_router stray_press"
    by (simp_all add: cache_hit_def prefix_router_def example_router_def new_MessageRouter_def
          press_5_def stray_press_def example_command_def Map_get_def)
  have s: "Map_get (targets prefix_router) (source press_5) = Some client_target"
    "Map_get (targets prefix_router) (source stray_press) = Some client_target"
    by (simp_all add: prefix_router_def press_5_def stray_press_def example_command_def Map_get_def)
  have f: "\<not> handler_fails client_target" by (simp add: handler_fails_def client_target_def)
  have o: "resolution_order ''atem.me'' = [''atem.me'', ''atem'']"
    by (simp add: resolution_order_def)
  have r1: "first_registered (targets prefix_router) [''companion.satellite'', ''companion'']
              = Some companion_target"
    by (simp add: first_registered_def prefix_router_def Map_get_def
          List.map_filter_simps)
  have r2: "first_registered (targets prefix_router) [''atem.me'', ''atem''] = None"
    by (simp add: first_registered_def prefix_router_def Map_get_def List.map_filter_simps)
  have e: "msg_path stray_press = ''companion.page.1.bank.0''" "msg_id stray_press = ''cmd-1''"
    "source stray_press = ''app.x''" "namespace client_target = ''app.x''"
    by (simp_all add: stray_press_def press_5_def example_command_def client_target_def)
  from command_target_resolution [OF c(1) t(1) h(1) s(1) f, of 1000]
       command_target_resolution [OF c(2) t(2) h(2) s(2) f, of 1000]
  show ?thesis
    by (auto simp: r1 r2 e o resolution_order_satellite)
qed


section \<open>Self-delivery suppression (C7)\<close>

lemma handleStateDelta_content:
  "state_content (fst (entryToMessage w (delta_path delta) (entry delta) now))
     = entry_content (delta_path delta, entry delta)"
  by (simp add: entryToMessage_def state_content_def entry_content_def createState_def)

text \<open>
  Claim C7: fan-out never hands a message back to the namespace it came from. Every
  handler call made while an event is routed goes to a target whose namespace differs from
  the event's source, and passes the event itself; every handler call made for a state
  delta goes to a target whose namespace differs from the owner of the delta's entry, and
  passes the state message of that entry.
\<close>

theorem fanout_skips_originating_namespace:
  "(payload m = EventPayload ev dat \<longrightarrow>
      (\<forall>d \<in> set (new_deliveries w (route w m now)). namespace (fst d) \<noteq> source m \<and> snd d = m)) \<and>
   (\<forall>d \<in> set (new_deliveries w (handleStateDelta w delta now)).
      namespace (fst d) \<noteq> owner (entry delta) \<and>
      state_content (snd d) = entry_content (delta_path delta, entry delta))"
proof (intro conjI impI)
  assume p: "payload m = EventPayload ev dat"
  from fanout_skips_origin [OF p, of w now] obtain ds
    where "deliveries (routeEvent w m now) = deliveries w @ ds"
      and "\<forall>d \<in> set ds. namespace (fst d) \<noteq> source m \<and> snd d = m" by blast
  then show "\<forall>d \<in> set (new_deliveries w (route w m now)). namespace (fst d) \<noteq> source m \<and> snd d = m"
    by (simp add: route_event [OF p])
next
  show "\<forall>d \<in> set (new_deliveries w (handleStateDelta w delta now)).
          namespace (fst d) \<noteq> owner (entry delta) \<and>
          state_content (snd d) = entry_content (delta_path delta, entry delta)"
    by (auto simp: handleStateDelta_deliveries handleStateDelta_content)
qed

lemma digit_char_1_2: "digit_char (Suc 0) \<noteq> digit_char (Suc (Suc 0))"
  using digit_char_inj [of "Suc 0" "Suc (Suc 0)"] by auto

lemma fanout_clients:
  "getSubscribedClients (subscriptionManager fanout_router) ''studio.tally'' k = [''app.x'', ''app.y'']"
  "getSubscribedClients (subscriptionManager fanout_router) ''studio.level'' k = [''app.x'', ''app.y'']"
  by (simp_all add: fanout_router_def getSubscribedClients_def getMatchingSubscriptions_def
        subscribe_def new_SubscriptionManager_def Map_get_def Map_has_def Set_add_def
        List.map_filter_simps filter_admits_def RegExp_test_pattern Let_def nat_toString_digit
        line_terminator_at_def digit_char_1_2 split: option.splits)


lemma fanout_targets:
  "findTargetById (targets fanout_router) ''app.x'' = Some origin_target"
  "findTargetById (targets fanout_router) ''app.y'' = Some listener_target"
  by (simp_all add: fanout_router_def findTargetById_def origin_target_def listener_target_def)

text \<open>
  Witness for C7: \<^verbatim>\<open>app.x\<close> and \<^verbatim>\<open>app.y\<close> both subscribe to \<^verbatim>\<open>studio.**\<close>. An event published
  by \<^verbatim>\<open>app.x\<close> and the delta of an entry owned by \<^verbatim>\<open>app.x\<close> are each delivered to \<^verbatim>\<open>app.y\<close>
  alone.
\<close>

theorem fanout_skips_originating_namespace_witness:
  "new_deliveries fanout_router (route fanout_router tally_event 1000)
     = [(listener_target, tally_event)] \<and>
   namespace listener_target \<noteq> source tally_event \<and>
   map (\<lambda>d. (namespace (fst d), state_content (snd d)))
       (new_deliveries fanout_router (handleStateDelta fanout_router tally_delta 1000))
     = [(''app.y'', entry_content (''studio.level'', entry tally_delta))] \<and>
   ''app.y'' \<noteq> owner (entry tally_delta)"
proof -
  have p: "payload tally_event = EventPayload ''cut'' None" "source tally_event = ''app.x''"
    "msg_path tally_event = ''studio.tally''" "\<not> isCommandMessage tally_event"
    by (simp_all add: tally_event_def isCommandMessage_def)
  have q: "delta_path tally_delta = ''studio.level''" "owner (entry tally_delta) = ''app.x''"
    by (simp_all add: tally_delta_def)
  have n: "namespace origin_target = ''app.x''" "namespace listener_target = ''app.y''"
    by (simp_all add: origin_target_def listener_target_def)
  have "deliveries (routeEvent fanout_router tally_event 1000)
          = deliveries fanout_router @ [(listener_target, tally_event)]"
    unfolding routeEvent_def deliver_to_clients_deliveries [OF p(4)]
    by (simp add: p fanout_clients fanout_targets n List.map_filter_simps)
  then have e: "new_deliveries fanout_router (route fanout_router tally_event 1000)
             = [(listener_target, tally_event)]"
    by (simp add: route_event [OF p(1)])
  have "deliveries (handleStateDelta fanout_router tally_delta 1000)
          = deliveries fanout_router
            @ [(listener_target, fst (entryToMessage fanout_router ''studio.level'' (entry tally_delta) 1000))]"
    unfolding handleStateDelta_deliveries
    by (simp add: q fanout_clients fanout_targets n List.map_filter_simps)
  then have d: "new_deliveries fanout_router (handleStateDelta fanout_router tally_delta 1000)
           = [(listener_target, fst (entryToMessage fanout_router ''studio.level'' (entry tally_delta) 1000))]"
    by simp
  have c: "payload tally_event = EventPayload ''cut'' None \<longrightarrow>
             namespace listener_target \<noteq> source tally_event \<and> tally_event = tally_event"
    and s: "namespace listener_target \<noteq> owner (entry tally_delta) \<and>
            state_content (fst (entryToMessage fanout_router ''studio.level'' (entry tally_delta) 1000))
              = entry_content (delta_path tally_delta, entry tally_delta)"
    using fanout_skips_originating_namespace
            [of tally_event "''cut''" None fanout_router 1000 tally_delta]
    unfolding e d by simp_all
  from c s e d p(1) show ?thesis by (simp add: n q(1))
qed

section \<open>Snapshot ordering (C5)\<close>


lemma owned_snapshot:
  "snapshot_content (stateStore owned_router) [''app.**'']
     = [(''app.y.level'', StatePayload (JNum 1) None (Some ''app.y'') (Some 1))]"
  by (simp add: snapshot_content_def getMatchingEntries_def getMatchingPaths_def owned_router_def
        new_StateStore_def entry_content_def level_entry_def Map_get_def RegExp_test_pattern
        line_terminator_at_def List.map_filter_simps)




section \<open>Subscriptions that leave the snapshot field out (C9)\<close>

text \<open>
  Claim C9: a subscribe message that leaves \<^verbatim>\<open>payload.snapshot\<close> out creates a subscription
  whose \<^verbatim>\<open>snapshot\<close> field is true and whose \<^verbatim>\<open>snapshotSent\<close> field is false; the only handler
  call the router makes for it is the completed ack to the subscriber (no snapshot state
  message, no \<^verbatim>\<open>snapshot_complete\<close> event); and after any further inputs to the hub the
  subscription, for as long as it exists, still has \<^verbatim>\<open>snapshot\<close> true and \<^verbatim>\<open>snapshotSent\<close>
  false.
\<close>

theorem omitted_snapshot_never_marked_sent:
  assumes "payload m = SubscribePayload pats flt None"
    and "w = run (new_MessageRouter st a) history"
  shows "Map_get (subscriptionsById (subscriptionManager (route w m now)))
           (''sub-'' @ nat_toString (idCounter (subscriptionManager w) + 1))
           = Some \<lparr> sub_id = ''sub-'' @ nat_toString (idCounter (subscriptionManager w) + 1),
                    clientId = source m, patterns = pats,
                    compiledPatterns = map patternToRegex pats,
                    sub_filter = (case flt of None \<Rightarrow> FilterAll | Some f \<Rightarrow> f),
                    snapshot = True, snapshotSent = False, createdAt = now \<rparr> \<and>
         new_deliveries w (route w m now) =
           (case Map_get (targets w) (source m) of
              None \<Rightarrow> []
            | Some t \<Rightarrow>
                [(t, createAck (generateUuidV7 (uuid_counter w)) now ''hub.core'' (source m)
                       (msg_path m) (msg_id m) Completed
                       (Some (JObj [(''subscriptionId'',
                                     JStr (''sub-'' @ nat_toString (idCounter (subscriptionManager w) + 1)))]))
                       None (correlationId m) (sequenceCounter w))]) \<and>
         awaiting_snapshot (subscriptionManager (run (route w m now) later))
           (''sub-'' @ nat_toString (idCounter (subscriptionManager w) + 1))"
proof -
  let ?sm = "subscriptionManager w"
  let ?sid = "''sub-'' @ nat_toString (idCounter ?sm + 1)"
  have r: "route w m now = handleSubscribe w m now" using assms(1) by (rule route_subscribe)
  have n: "(None :: bool option) \<noteq> Some True" by simp
  have s: "subscriptionManager (handleSubscribe w m now) = snd (subscribe ?sm (source m) pats flt None now)"
    using assms(1) n by (rule handleSubscribe_no_snapshot(2))
  have b: "ids_bounded ?sm" unfolding assms(2) by (rule reachable_bounded)
  have "(None :: bool option) \<noteq> Some False" by simp
  with b have k: "keeps_waiting (snd (subscribe ?sm (source m) pats flt None now)) (idCounter ?sm + 1)"
    by (rule subscribe_waits)
  have "keeps_waiting (subscriptionManager (run (handleSubscribe w m now) later)) (idCounter ?sm + 1)"
    using k unfolding s [symmetric] by (rule run_keeps)
  then have 3: "awaiting_snapshot (subscriptionManager (run (handleSubscribe w m now) later)) ?sid"
    by (simp add: keeps_waiting_def)
  have 1: "Map_get (subscriptionsById (subscriptionManager (handleSubscribe w m now))) ?sid
             = Some \<lparr> sub_id = ?sid, clientId = source m, patterns = pats,
                      compiledPatterns = map patternToRegex pats,
                      sub_filter = (case flt of None \<Rightarrow> FilterAll | Some f \<Rightarrow> f),
                      snapshot = True, snapshotSent = False, createdAt = now \<rparr>"
    unfolding s subscribe_new_entry by (simp add: subscribe_def Let_def)
  have 2: "new_deliveries w (handleSubscribe w m now) =
           (case Map_get (targets w) (source m) of
              None \<Rightarrow> []
            | Some t \<Rightarrow>
                [(t, createAck (generateUuidV7 (uuid_counter w)) now ''hub.core'' (source m)
                       (msg_path m) (msg_id m) Completed
                       (Some (JObj [(''subscriptionId'', JStr ?sid)]))
                       None (correlationId m) (sequenceCounter w))])"
    using handleSubscribe_no_snapshot(1) [OF assms(1) n, of w now] by simp
  show ?thesis unfolding r using 1 2 3 by simp
qed

lemma started_router_eq:
  "started_router =
     (new_MessageRouter (new_StateStore ''hub.core'') (example_adapter True))
       \<lparr> targets := [(''app.x'', client_target)] \<rparr>"
  by (simp add: started_router_def run_def registerTarget_def Map_has_def Map_get_def
        new_MessageRouter_def client_target_def)

text \<open>
  Witness for C9: on a hub just started, \<^verbatim>\<open>app.x\<close> subscribes to \<^verbatim>\<open>app.**\<close> without the
  snapshot field. Subscription \<^verbatim>\<open>sub-1\<close> is created asking for a snapshot, \<^verbatim>\<open>app.x\<close> is sent
  the ack and nothing else, and after a later write and a later subscribe request the
  subscription is still waiting for its snapshot.
\<close>

theorem omitted_snapshot_never_marked_sent_witness:
  "Map_get (subscriptionsById (subscriptionManager (route started_router (subscribe_request None) 1000)))
       ''sub-1''
     = Some \<lparr> sub_id = ''sub-1'', clientId = ''app.x'', patterns = [''app.**''],
              compiledPatterns = [patternToRegex ''app.**''], sub_filter = FilterAll,
              snapshot = True, snapshotSent = False, createdAt = 1000 \<rparr> \<and>
   new_deliveries started_router (route started_router (subscribe_request None) 1000)
     = [(client_target,
         createAck ''uuid-0'' 1000 ''hub.core'' ''app.x'' ''hub.subscriptions'' ''req-1'' Completed
           (Some (JObj [(''subscriptionId'', JStr ''sub-1'')])) None None 0)] \<and>
   awaiting_snapshot
     (subscriptionManager
        (run (route started_router (subscribe_request None) 1000)
           [StoreSet ''app.y.level'' (JNum 2) ''app.y'' 2000,
            Route (subscribe_request (Some True)) 3000]))
     ''sub-1''"
proof -
  have p: "payload (subscribe_request None) = SubscribePayload [''app.**''] None None"
    by (simp add: subscribe_request_def)
  have e: "Map_get (targets started_router) ''app.x'' = Some client_target"
    "uuid_counter started_router = 0" "sequenceCounter started_router = 0"
    "idCounter (subscriptionManager started_router) = 0"
    by (simp_all add: started_router_eq new_MessageRouter_def new_SubscriptionManager_def Map_get_def)
  have m: "source (subscribe_request None) = ''app.x''"
    "msg_path (subscribe_request None) = ''hub.subscriptions''"
    "msg_id (subscribe_request None) = ''req-1''"
    "correlationId (subscribe_request None) = None"
    by (simp_all add: subscribe_request_def)
  have u: "generateUuidV7 0 = ''uuid-0''" "nat_toString (Suc 0) = ''1''"
    by (simp_all add: generateUuidV7_def nat_toString_digit digit_chars)
  from omitted_snapshot_never_marked_sent [OF p started_router_def, of 1000
         "[StoreSet ''app.y.level'' (JNum 2) ''app.y'' 2000, Route (subscribe_request (Some True)) 3000]"]
  show ?thesis
    by (simp add: e m u)
qed


section \<open>Idempotent commands (C1)\<close>

lemma first_route:
  "route example_router press_5 1000 =
     example_router
       \<lparr> sequenceCounter := 1, uuid_counter := 2,
         idempotencyCache := [(''K1'', \<lparr> result = None, cached_at = 1000 \<rparr>)],
         adapter := (example_adapter True)
           \<lparr> adapter_sequenceCounter := 1, messagesSent := 1, commandsSent := 1,
             sent := [''KEY-PRESS dev 5 PRESSED''] \<rparr>,
         deliveries :=
           [(client_target,
             createAck ''uuid-0'' 1000 ''hub.core'' ''app.x'' ''companion.page.1.bank.0'' ''cmd-1''
               Received None None None 0),
            (satellite_target, press_5),
            (client_target,
             createAck ''uuid-1'' 1000 ''companion.satellite'' ''app.x'' ''companion.page.1.bank.0''
               ''cmd-1'' Completed None None None 0)] \<rparr>"
  by (simp add: route_def routeCommand_def press_5_def example_command_def example_router_def
        new_MessageRouter_def falsy_string_def Map_get_def findTarget_def invoke_def
        call_handler_def client_target_def satellite_target_def companion_target_def
        handleBridgeMessage_def handlePressCommand_def press_key_text_def optional_chain_def
        member_def toString_method_def ToString_def sendSatelliteCommand_def sendCompletedAck_def
        example_adapter_def
        handleAck_def generateUuidV7_def nat_toString_digit digit_chars int_toString_def
        adapter_namespace_def Let_def)

lemma routeCommand_in_flight:
  assumes "enableIdempotency w" and "idempotencyKey m = Some k" and "k \<noteq> []"
    and "Map_get (idempotencyCache w) k = Some c" and "result c = None"
  shows "routeCommand w m now = w"
  using assms by (simp add: routeCommand_def falsy_string_def)

lemma second_route:
  "route (route example_router press_5 1000) press_5 2000 = route example_router press_5 1000"
proof -
  have p: "payload press_5 = CommandPayload ''press'' (Some [(''keyIndex'', JNum 5)])"
    "idempotencyKey press_5 = Some ''K1''"
    by (simp_all add: press_5_def example_command_def)
  have e: "enableIdempotency (route example_router press_5 1000)"
    by (subst first_route) (simp add: example_router_def new_MessageRouter_def)
  have c: "Map_get (idempotencyCache (route example_router press_5 1000)) ''K1''
             = Some \<lparr> result = None, cached_at = 1000 \<rparr>"
    by (subst first_route) (simp add: Map_get_def)
  have "routeCommand (route example_router press_5 1000) press_5 2000 = route example_router press_5 1000"
    by (rule routeCommand_in_flight [OF e p(2) _ c]) simp_all
  then show ?thesis by (simp add: route_def p)
qed

text \<open>
  Claim C1, evaluated on the resend scenario of the specification. \<^verbatim>\<open>app.x\<close> sends the press
  of key 5 with idempotency key \<^verbatim>\<open>K1\<close> at time 1000 and the identical envelope again at
  time 2000, within the TTL of 60000. The first routing hands \<^verbatim>\<open>app.x\<close> the received ack,
  hands the adapter the command, which writes one KEY-PRESS frame, and hands \<^verbatim>\<open>app.x\<close> the
  adapter's completed ack; the cache entry for \<^verbatim>\<open>K1\<close> is left without a result. The second
  routing makes no handler call at all: the adapter is not invoked again and no second
  frame is written, but \<^verbatim>\<open>app.x\<close> receives no ack for the resend.
\<close>

theorem resend_receives_no_ack:
  "enableIdempotency example_router \<and> idempotencyTtl example_router = 60000 \<and>
   map (\<lambda>d. (namespace (fst d), ack_status (snd d)))
       (deliveries (route example_router press_5 1000))
     = [(''app.x'', Some Received), (''companion.satellite'', None), (''app.x'', Some Completed)] \<and>
   map_option result (Map_get (idempotencyCache (route example_router press_5 1000)) ''K1'')
     = Some None \<and>
   new_deliveries (route example_router press_5 1000)
       (route (route example_router press_5 1000) press_5 2000) = [] \<and>
   sent (adapter (route (route example_router press_5 1000) press_5 2000))
     = [''KEY-PRESS dev 5 PRESSED'']"
proof -
  have 1: "enableIdempotency example_router \<and> idempotencyTtl example_router = 60000"
    by (simp add: example_router_def new_MessageRouter_def)
  have 2: "map (\<lambda>d. (namespace (fst d), ack_status (snd d)))
             (deliveries (route example_router press_5 1000))
           = [(''app.x'', Some Received), (''companion.satellite'', None), (''app.x'', Some Completed)]"
    by (subst first_route)
       (simp add: client_target_def satellite_target_def ack_status_def press_5_def
          example_command_def)
  have 3: "map_option result (Map_get (idempotencyCache (route example_router press_5 1000)) ''K1'')
             = Some None"
    by (subst first_route) (simp add: Map_get_def)
  have 4: "new_deliveries (route example_router press_5 1000)
             (route (route example_router press_5 1000) press_5 2000) = []"
    by (simp add: second_route new_deliveries_def)
  have 5: "sent (adapter (route (route example_router press_5 1000) press_5 2000))
             = [''KEY-PRESS dev 5 PRESSED'']"
    unfolding second_route by (subst first_route) simp
  from 1 2 3 4 5 show ?thesis by simp
qed


end
